theory Spec2Isabelle
  imports Complex_Main
begin

section \<open>Aim Trainer: the target entity and the game loop of tutorial.py\<close>

text \<open>
  The program is a single Python module. Its numbers are Python ints (the window
  coordinates, the three counters) and Python floats (the radius of a target, the
  elapsed time, the displayed statistics). Ints are modelled as \<open>int\<close>. Floats are
  modelled as exact reals: every statement below about a radius, a distance or a
  percentage is a statement about the arithmetic the code writes down, without the
  rounding of IEEE doubles.

  The window, the font, the drawing calls and \<open>format_time\<close> produce nothing the loop
  reads; they are left out. What the loop takes from its environment (the events, the
  mouse position, the clock, the random positions) is the input of an iteration.
\<close>

subsection \<open>Constants\<close>

definition WIDTH :: int where "WIDTH = 1000"
definition HEIGHT :: int where "HEIGHT = 800"
definition TARGET_PADDING :: int where "TARGET_PADDING = 30"
definition LIVES :: int where "LIVES = 3"
definition TOP_BAR_HEIGHT :: int where "TOP_BAR_HEIGHT = 50"

definition MAX_SIZE :: real where "MAX_SIZE = 30"
definition GROWTH_RATE :: real where "GROWTH_RATE = 2 / 10"

subsection \<open>Errors\<close>

text \<open>
  The two exceptions the arithmetic and the list operations of the module can raise:
  \<open>list.remove\<close> of an absent element, and a division whose divisor is zero.
\<close>

datatype error = ValueError | ZeroDivisionError

subsection \<open>class Target\<close>

text \<open>
  An instance has the attributes \<open>x\<close>, \<open>y\<close>, \<open>size\<close> and \<open>growth\<close>. The class
  defines no \<open>__eq__\<close>, so two instances are equal only when they are the same object;
  \<open>oid\<close> is the identity of the object (what Python's \<open>id\<close> would tell apart), given
  at construction and never assigned again.
\<close>

record target =
  oid :: nat
  tgt_x :: int
  tgt_y :: int
  tgt_size :: real
  tgt_growth :: bool

text \<open>\<open>Target.__init__\<close>: the position is stored, the radius is 0, the target grows.\<close>

definition Target :: "nat \<Rightarrow> int \<Rightarrow> int \<Rightarrow> target" where
  "Target k px py = \<lparr>oid = k, tgt_x = px, tgt_y = py, tgt_size = 0, tgt_growth = True\<rparr>"

text \<open>
  \<open>Target.update\<close>: first the test that may clear \<open>growth\<close>, then the step in the
  direction \<open>growth\<close> has after that test.
\<close>

definition update :: "target \<Rightarrow> target" where
  "update t =
     (let t1 = (if tgt_size t + GROWTH_RATE \<ge> MAX_SIZE then t\<lparr>tgt_growth := False\<rparr> else t)
      in if tgt_growth t1 then t1\<lparr>tgt_size := tgt_size t1 + GROWTH_RATE\<rparr>
         else t1\<lparr>tgt_size := tgt_size t1 - GROWTH_RATE\<rparr>)"

text \<open>
  \<open>Target.collide\<close>: \<open>math.sqrt((self.x - x) ** 2 + (self.y - y) ** 2) <= self.size\<close>.
  The method assigns nothing, so the model is a predicate.
\<close>

definition collide :: "target \<Rightarrow> int \<Rightarrow> int \<Rightarrow> bool" where
  "collide t px py \<longleftrightarrow>
     sqrt (real_of_int ((tgt_x t - px) ^ 2 + (tgt_y t - py) ^ 2)) \<le> tgt_size t"

subsection \<open>The statistics shown on screen\<close>

text \<open>
  \<open>round(v, 1)\<close>: the nearest multiple of one tenth, a tie going to the even digit.
  The model rounds the exact quotient; Python rounds the double that holds it, so the
  shown digit can differ where the exact value is a decimal tie that the double is not
  (1/20 is one: the model gives 0, Python 0.1). The statements below use the bounds of
  the rounded value, never its digits.
\<close>

definition round_half_even :: "real \<Rightarrow> int" where
  "round_half_even r =
     (let f = \<lfloor>r\<rfloor>; d = r - of_int f
      in if d < 1 / 2 then f else if 1 / 2 < d then f + 1 else if even f then f else f + 1)"

definition round_1 :: "real \<Rightarrow> real" where
  "round_1 v = of_int (round_half_even (v * 10)) / 10"

text \<open>
  \<open>draw_top_bar\<close>: the values behind the three labels that depend on the counters. The
  speed is \<open>round(targets_pressed / elapsed_time, 1)\<close>; a true division in Python raises
  \<open>ZeroDivisionError\<close> when the divisor is zero.
\<close>

record top_bar =
  bar_speed :: real
  bar_hits :: int
  bar_lives :: int

definition draw_top_bar :: "real \<Rightarrow> int \<Rightarrow> int \<Rightarrow> error + top_bar" where
  "draw_top_bar elapsed pressed missed =
     (if elapsed = 0 then Inl ZeroDivisionError
      else Inr \<lparr>bar_speed = round_1 (of_int pressed / elapsed), bar_hits = pressed,
                bar_lives = LIVES - missed\<rparr>)"

text \<open>
  \<open>end_screen\<close>, up to the blocking wait: the speed first, then the accuracy
  \<open>round(targets_pressed / clicks * 100, 1)\<close>, in the order of the source.
\<close>

record summary =
  sum_time :: real
  sum_speed :: real
  sum_hits :: int
  sum_accuracy :: real

definition end_screen :: "real \<Rightarrow> int \<Rightarrow> int \<Rightarrow> error + summary" where
  "end_screen elapsed pressed clks =
     (if elapsed = 0 then Inl ZeroDivisionError
      else if clks = 0 then Inl ZeroDivisionError
      else Inr \<lparr>sum_time = elapsed, sum_speed = round_1 (of_int pressed / elapsed),
                sum_hits = pressed,
                sum_accuracy = round_1 (of_int pressed / of_int clks * 100)\<rparr>)"

subsection \<open>The locals of main and the input of one tick\<close>

text \<open>
  What the environment hands to one iteration of the loop: the events of
  \<open>pygame.event.get()\<close>, the mouse position and the reading of \<open>time.time()\<close>. A
  \<open>TARGET_EVENT\<close> carries the two numbers \<open>random.randint\<close> returns while that event
  is handled.
\<close>

datatype event = QUIT | TARGET_EVENT int int | MOUSEBUTTONDOWN | KEYDOWN | OTHER

record tick_input =
  events :: "event list"
  mouse :: "int \<times> int"
  time_now :: real

text \<open>
  The local variables of \<open>main\<close>. \<open>click\<close>, \<open>mouse_pos\<close> and \<open>elapsed_time\<close> are
  assigned at the top of every iteration before anything reads them. \<open>next_oid\<close> is
  not a variable of the program: it numbers the objects created so far.
\<close>

record game =
  run :: bool
  targets :: "target list"
  targets_pressed :: int
  clicks :: int
  misses :: int
  start_time :: real
  click :: bool
  mouse_pos :: "int \<times> int"
  elapsed_time :: real
  next_oid :: nat

definition main_init :: "real \<Rightarrow> game" where
  "main_init st =
     \<lparr>run = True, targets = [], targets_pressed = 0, clicks = 0, misses = 0,
      start_time = st, click = False, mouse_pos = (0, 0), elapsed_time = 0, next_oid = 0\<rparr>"

subsection \<open>The event loop of a tick\<close>

definition handle_event :: "event \<Rightarrow> game \<Rightarrow> game" where
  "handle_event e g =
     (case e of
        TARGET_EVENT px py \<Rightarrow>
          g\<lparr>targets := targets g @ [Target (next_oid g) px py], next_oid := Suc (next_oid g)\<rparr>
      | MOUSEBUTTONDOWN \<Rightarrow> g\<lparr>click := True, clicks := clicks g + 1\<rparr>
      | _ \<Rightarrow> g)"

text \<open>A \<open>QUIT\<close> event clears \<open>run\<close> and breaks out: the events after it are not handled.\<close>

fun handle_events :: "event list \<Rightarrow> game \<Rightarrow> game" where
  "handle_events [] g = g"
| "handle_events (e # es) g =
     (if e = QUIT then g\<lparr>run := False\<rparr> else handle_events es (handle_event e g))"

subsection \<open>The loop over the targets\<close>

text \<open>
  \<open>targets.remove(target)\<close> deletes the first element equal to \<open>target\<close>, which for
  this class is the object itself, and raises \<open>ValueError\<close> when there is none.
\<close>

fun list_remove :: "nat \<Rightarrow> target list \<Rightarrow> error + target list" where
  "list_remove k [] = Inl ValueError"
| "list_remove k (t # ts) =
     (if oid t = k then Inr ts
      else (case list_remove k ts of Inl e \<Rightarrow> Inl e | Inr r \<Rightarrow> Inr (t # r)))"

text \<open>
  The body of \<open>for target in targets\<close> for the element at index \<open>i\<close>: the object in
  the list is updated in place; it is removed and counted as a miss when its radius
  is not positive; then, whether or not it was just removed, it is removed and counted
  as a hit when there was a click and the mouse position collides with it.
\<close>

definition loop_body :: "nat \<Rightarrow> game \<Rightarrow> error + game" where
  "loop_body i g =
     (let t = update (targets g ! i);
          g1 = g\<lparr>targets := (targets g)[i := t]\<rparr>
      in case (if tgt_size t \<le> 0
               then (case list_remove (oid t) (targets g1) of
                       Inl e \<Rightarrow> Inl e
                     | Inr ts \<Rightarrow> Inr (g1\<lparr>targets := ts, misses := misses g1 + 1\<rparr>))
               else Inr g1) of
           Inl e \<Rightarrow> Inl e
         | Inr g2 \<Rightarrow>
             (if click g2 \<and> collide t (fst (mouse_pos g2)) (snd (mouse_pos g2))
              then (case list_remove (oid t) (targets g2) of
                      Inl e \<Rightarrow> Inl e
                    | Inr ts \<Rightarrow>
                        Inr (g2\<lparr>targets := ts, targets_pressed := targets_pressed g2 + 1\<rparr>))
              else Inr g2))"

text \<open>
  The list iterator of Python keeps an index: each step takes the element at that
  index of the list as it is then, and the loop ends when the index reaches the
  current length. The loop ends because a pass of the body never makes the list
  longer.
\<close>

function for_targets :: "nat \<Rightarrow> game \<Rightarrow> error + game" where
  "for_targets i g =
     (if i < length (targets g)
      then (case loop_body i g of Inl e \<Rightarrow> Inl e | Inr g' \<Rightarrow> for_targets (Suc i) g')
      else Inr g)"
  by pat_completeness auto
termination
proof (relation "measure (\<lambda>(i, g). length (targets g) - i)")
  show "wf (measure (\<lambda>(i, g). length (targets g) - i))" by simp
next
  fix i :: nat and g g' :: game
  assume i: "i < length (targets g)" and body: "loop_body i g = Inr g'"
  have shorter: "Suc (length r) = length ts" if "list_remove k ts = Inr r"
    for k :: nat and ts r :: "target list"
    using that by (induction ts arbitrary: r) (auto split: if_splits sum.splits)
  have "length (targets g') \<le> length (targets g)"
    using body
    by (auto simp: loop_body_def Let_def split: if_splits sum.splits dest!: shorter)
  with i show "((Suc i, g'), (i, g)) \<in> measure (\<lambda>(i, g). length (targets g) - i)"
    by simp
qed

declare for_targets.simps [simp del]

subsection \<open>One iteration of the main loop, and the program as a state machine\<close>

text \<open>
  The program is in one of four situations: in the main loop (\<open>RUNNING\<close>, with the
  locals of \<open>main\<close>), inside the waiting loop of \<open>end_screen\<close> (\<open>ENDED\<close>, with the
  summary on screen), exited (the loop left after \<open>QUIT\<close>, or \<open>quit()\<close> called from
  the end screen), or stopped by an uncaught exception.
\<close>

datatype outcome = RUNNING game | ENDED summary | EXITED | CRASHED error

text \<open>
  The first half of an iteration: \<open>click\<close>, \<open>mouse_pos\<close> and \<open>elapsed_time\<close> are
  assigned, the events are handled, the targets are looped over.
\<close>

definition update_phase :: "game \<Rightarrow> tick_input \<Rightarrow> error + game" where
  "update_phase g inp =
     for_targets 0
       (handle_events (events inp)
          (g\<lparr>click := False, mouse_pos := mouse inp,
             elapsed_time := time_now inp - start_time g\<rparr>))"

text \<open>
  The second half: with \<open>misses >= LIVES\<close> the end screen is entered, and \<open>end_screen\<close>
  never returns; otherwise the frame and the top bar are drawn and the loop goes on
  while \<open>run\<close> holds.
\<close>

definition tick :: "game \<Rightarrow> tick_input \<Rightarrow> outcome" where
  "tick g inp =
     (case update_phase g inp of
        Inl e \<Rightarrow> CRASHED e
      | Inr g2 \<Rightarrow>
          (if misses g2 \<ge> LIVES
           then (case end_screen (elapsed_time g2) (targets_pressed g2) (clicks g2) of
                   Inl e \<Rightarrow> CRASHED e
                 | Inr s \<Rightarrow> ENDED s)
           else (case draw_top_bar (elapsed_time g2) (targets_pressed g2) (misses g2) of
                   Inl e \<Rightarrow> CRASHED e
                 | Inr bar \<Rightarrow> if run g2 then RUNNING g2 else EXITED)))"

text \<open>
  One step of the program on one batch of input. In the end screen a batch with a
  \<open>QUIT\<close> or a \<open>KEYDOWN\<close> event calls \<open>quit()\<close>; any other batch leaves it waiting.
\<close>

fun step :: "outcome \<Rightarrow> tick_input \<Rightarrow> outcome" where
  "step (RUNNING g) inp = tick g inp"
| "step (ENDED s) inp =
     (if QUIT \<in> set (events inp) \<or> KEYDOWN \<in> set (events inp) then EXITED else ENDED s)"
| "step EXITED inp = EXITED"
| "step (CRASHED e) inp = CRASHED e"

fun steps :: "outcome \<Rightarrow> tick_input list \<Rightarrow> outcome" where
  "steps s [] = s"
| "steps s (inp # inps) = steps (step s inp) inps"

text \<open>
  \<open>random.randint(a, b)\<close> returns an integer \<open>n\<close> with \<open>a \<le> n \<le> b\<close>: the numbers a
  \<open>TARGET_EVENT\<close> can carry.
\<close>

fun randint_ok :: "event \<Rightarrow> bool" where
  "randint_ok (TARGET_EVENT px py) \<longleftrightarrow>
     TARGET_PADDING \<le> px \<and> px \<le> WIDTH - TARGET_PADDING \<and>
     TARGET_PADDING + TOP_BAR_HEIGHT \<le> py \<and> py \<le> HEIGHT - TARGET_PADDING"
| "randint_ok _ \<longleftrightarrow> True"

definition wf_input :: "tick_input \<Rightarrow> bool" where
  "wf_input inp \<longleftrightarrow> list_all randint_ok (events inp)"

text \<open>The states the main loop can be in at the top of an iteration.\<close>

inductive reachable :: "game \<Rightarrow> bool" where
  init: "reachable (main_init st)"
| tick: "reachable g \<Longrightarrow> wf_input inp \<Longrightarrow> tick g inp = RUNNING g' \<Longrightarrow> reachable g'"

subsection \<open>Predicates and inputs used in the statements\<close>

text \<open>
  The objects in the list are pairwise different and were all created before the
  next one to be created.
\<close>

definition ids_ok :: "game \<Rightarrow> bool" where
  "ids_ok g \<longleftrightarrow>
     distinct (map oid (targets g)) \<and> list_all (\<lambda>t. oid t < next_oid g) (targets g)"

definition radius_ok :: "target \<Rightarrow> bool" where
  "radius_ok t \<longleftrightarrow> 0 \<le> tgt_size t \<and> tgt_size t \<le> MAX_SIZE"

definition in_play_area :: "target \<Rightarrow> bool" where
  "in_play_area t \<longleftrightarrow>
     TARGET_PADDING \<le> tgt_x t \<and> tgt_x t \<le> WIDTH - TARGET_PADDING \<and>
     TARGET_PADDING + TOP_BAR_HEIGHT \<le> tgt_y t \<and> tgt_y t \<le> HEIGHT - TARGET_PADDING"

text \<open>The object number \<open>k\<close>, created at \<open>(px, py)\<close>, after \<open>n\<close> calls of \<open>update\<close>.\<close>

definition aged :: "nat \<Rightarrow> nat \<Rightarrow> int \<Rightarrow> int \<Rightarrow> target" where
  "aged n k px py = (update ^^ n) (Target k px py)"

text \<open>
  The input of iteration number \<open>k\<close> of a session that started at clock reading 0 and
  runs at the 60 iterations per second \<open>clock.tick(60)\<close> allows; \<open>idle_frames a n\<close>
  are the \<open>n\<close> iterations from number \<open>a\<close> on in which nothing happens and the mouse
  rests in the corner of the window.
\<close>

definition frame :: "nat \<Rightarrow> event list \<Rightarrow> int \<times> int \<Rightarrow> tick_input" where
  "frame k evs mp = \<lparr>events = evs, mouse = mp, time_now = real k / 60\<rparr>"

definition idle_frames :: "nat \<Rightarrow> nat \<Rightarrow> tick_input list" where
  "idle_frames a n = map (\<lambda>k. frame k [] (0, 0)) [a..<a + n]"

text \<open>
  The locals of \<open>main\<close> after iteration \<open>k\<close> of a session in which the player has not
  clicked: the targets \<open>ts\<close>, \<open>m\<close> misses, \<open>n\<close> objects created.
\<close>

definition idle_state :: "nat \<Rightarrow> target list \<Rightarrow> int \<Rightarrow> nat \<Rightarrow> game" where
  "idle_state k ts m n =
     \<lparr>run = True, targets = ts, targets_pressed = 0, clicks = 0, misses = m,
      start_time = 0, click = False, mouse_pos = (0, 0), elapsed_time = real k / 60,
      next_oid = n\<rparr>"

text \<open>
  A session in which the player never clicks: a target appears in iteration 1 and then
  every 180 iterations (the 3000 ms of \<open>TARGET_INCREMENT\<close> at 60 iterations per
  second). \<open>session_181\<close> are the iterations 1 to 181, \<open>session_297\<close> the iterations 1
  to 297, \<open>session_658\<close> the iterations 1 to 658, \<open>session_659\<close> the iterations 1 to 659
  and \<open>session_700\<close> the iterations 1 to 700, the last before the fifth target would
  appear.
\<close>

definition session_181 :: "tick_input list" where
  "session_181 =
     [frame 1 [TARGET_EVENT 100 100] (0, 0)] @ idle_frames 2 179 @
     [frame 181 [TARGET_EVENT 300 200] (0, 0)]"

definition session_297 :: "tick_input list" where
  "session_297 = session_181 @ idle_frames 182 116"

definition session_658 :: "tick_input list" where
  "session_658 =
     session_297 @ [frame 298 [] (0, 0)] @ idle_frames 299 62 @
     [frame 361 [TARGET_EVENT 500 300] (0, 0)] @ idle_frames 362 117 @
     [frame 479 [] (0, 0)] @ idle_frames 480 61 @
     [frame 541 [TARGET_EVENT 700 400] (0, 0)] @ idle_frames 542 117"

definition session_659 :: "tick_input list" where
  "session_659 = session_658 @ [frame 659 [] (0, 0)]"

definition session_700 :: "tick_input list" where
  "session_700 = session_659 @ idle_frames 660 41"

section \<open>Properties of a single target\<close>

lemma update_oid: "oid (update t) = oid t"
  by (simp add: update_def Let_def)

lemma update_x: "tgt_x (update t) = tgt_x t"
  by (simp add: update_def Let_def)

lemma update_y: "tgt_y (update t) = tgt_y t"
  by (simp add: update_def Let_def)

lemma update_growth:
  "tgt_growth (update t) \<longleftrightarrow> tgt_growth t \<and> tgt_size t + GROWTH_RATE < MAX_SIZE"
  by (auto simp: update_def Let_def)

lemma update_size:
  "tgt_size (update t) =
     (if tgt_growth t \<and> tgt_size t + GROWTH_RATE < MAX_SIZE
      then tgt_size t + GROWTH_RATE else tgt_size t - GROWTH_RATE)"
  by (auto simp: update_def Let_def)

text \<open>The hit test without the square root, which the kernel can evaluate.\<close>

lemma collide_iff:
  "collide t px py \<longleftrightarrow>
     0 \<le> tgt_size t \<and>
     real_of_int ((tgt_x t - px) ^ 2 + (tgt_y t - py) ^ 2) \<le> (tgt_size t) ^ 2"
proof -
  let ?n = "real_of_int ((tgt_x t - px) ^ 2 + (tgt_y t - py) ^ 2)"
  have n0: "0 \<le> ?n" by simp
  show ?thesis
  proof (cases "0 \<le> tgt_size t")
    case True
    have "sqrt ?n \<le> tgt_size t \<longleftrightarrow> ?n \<le> (tgt_size t) ^ 2"
      using True n0 by (metis real_sqrt_le_iff real_sqrt_abs abs_of_nonneg)
    then show ?thesis using True by (simp add: collide_def)
  next
    case False
    have "0 \<le> sqrt ?n" using n0 by (rule real_sqrt_ge_zero)
    then show ?thesis using False unfolding collide_def by linarith
  qed
qed

text \<open>
  The radius of a fresh target after \<open>n\<close> updates, in closed form: it climbs by
  \<open>GROWTH_RATE\<close> for 149 updates, up to 29.8; the 150th update is the first at which
  \<open>size + GROWTH_RATE \<ge> MAX_SIZE\<close>, and from there on every update steps down, to 0
  at update 298. These counts are those of exact arithmetic. The sums of the double
  nearest to 0.2 are not exact: on doubles the same tests clear the flag at update 151
  and find the radius not positive at update 300, where it is a little below 0 and
  not 0; the radius stays below 30 and the target is removed in that pass all the
  same. The iteration numbers in the sessions below are those of exact arithmetic; on
  doubles each target lives two iterations longer.
\<close>

lemma update_funpow_fresh:
  "(update ^^ n) (Target k px py) =
     (if n < 150
      then \<lparr>oid = k, tgt_x = px, tgt_y = py, tgt_size = real n * GROWTH_RATE, tgt_growth = True\<rparr>
      else \<lparr>oid = k, tgt_x = px, tgt_y = py,
            tgt_size = 298 * GROWTH_RATE - real n * GROWTH_RATE, tgt_growth = False\<rparr>)"
proof (induction n)
  case 0
  show ?case by (simp add: Target_def)
next
  case (Suc n)
  have step: "(update ^^ Suc n) (Target k px py) = update ((update ^^ n) (Target k px py))"
    by simp
  consider "n < 149" | "n = 149" | "150 \<le> n" by linarith
  then show ?case
  proof cases
    case 1
    then have "real n < 149" by simp
    with 1 show ?thesis unfolding step Suc
      by (simp add: update_def Let_def GROWTH_RATE_def MAX_SIZE_def algebra_simps)
  next
    case 2
    then have "real n = 149" by simp
    with 2 show ?thesis unfolding step Suc
      by (simp add: update_def Let_def GROWTH_RATE_def MAX_SIZE_def)
  next
    case 3
    then have "150 \<le> real n" by simp
    with 3 show ?thesis unfolding step Suc
      by (simp add: update_def Let_def GROWTH_RATE_def MAX_SIZE_def algebra_simps)
  qed
qed

text \<open>
  C3. For every target and every point, \<open>collide\<close> is true exactly when the Euclidean
  distance from the point to the centre of the target is at most the current radius.
  The distance is taken from the library: the metric of the complex plane, with the
  point and the centre as complex numbers.
\<close>

theorem collide_euclidean:
  "collide t px py \<longleftrightarrow>
     dist (Complex (of_int px) (of_int py)) (Complex (of_int (tgt_x t)) (of_int (tgt_y t)))
       \<le> tgt_size t"
proof -
  have "dist (Complex (of_int px) (of_int py)) (Complex (of_int (tgt_x t)) (of_int (tgt_y t)))
      = sqrt ((of_int px - of_int (tgt_x t)) ^ 2 + (of_int py - of_int (tgt_y t)) ^ 2)"
    by (simp add: dist_norm cmod_def)
  also have "\<dots> = sqrt (real_of_int ((tgt_x t - px) ^ 2 + (tgt_y t - py) ^ 2))"
    by (simp add: power2_commute)
  finally show ?thesis by (simp add: collide_def)
qed

text \<open>While a target grows its radius is the start radius plus the steps taken.\<close>

lemma growth_stays_off: "\<not> tgt_growth t \<Longrightarrow> \<not> tgt_growth ((update ^^ m) t)"
  by (induction m) (simp_all add: update_growth)

lemma growth_off_later:
  assumes "\<not> tgt_growth ((update ^^ m) t)" and "m \<le> m'"
  shows "\<not> tgt_growth ((update ^^ m') t)"
proof -
  from assms(2) obtain j where "m' = j + m" by (metis le_add_diff_inverse2)
  then have "(update ^^ m') t = (update ^^ j) ((update ^^ m) t)" by (simp add: funpow_add)
  with growth_stays_off [OF assms(1)] show ?thesis by simp
qed

lemma growth_funpow:
  assumes "tgt_growth t"
  shows "(tgt_growth ((update ^^ n) t) \<longleftrightarrow>
            n = 0 \<or> tgt_size t + real n * GROWTH_RATE < MAX_SIZE)
         \<and> (tgt_growth ((update ^^ n) t) \<longrightarrow>
            tgt_size ((update ^^ n) t) = tgt_size t + real n * GROWTH_RATE)"
proof (induction n)
  case 0
  show ?case using assms by simp
next
  case (Suc n)
  let ?u = "(update ^^ n) t"
  have step: "(update ^^ Suc n) t = update ?u" by simp
  show ?case
  proof (cases "tgt_growth ?u")
    case True
    with Suc have sz: "tgt_size ?u = tgt_size t + real n * GROWTH_RATE" by simp
    show ?thesis unfolding step
      using True sz by (simp add: update_growth update_size algebra_simps)
  next
    case False
    with Suc have "n \<noteq> 0" and "\<not> tgt_size t + real n * GROWTH_RATE < MAX_SIZE" by auto
    moreover have "real (Suc n) * GROWTH_RATE = real n * GROWTH_RATE + GROWTH_RATE"
      by (simp add: algebra_simps)
    moreover have "0 < GROWTH_RATE" by (simp add: GROWTH_RATE_def)
    ultimately have "\<not> tgt_size t + real (Suc n) * GROWTH_RATE < MAX_SIZE"
      by linarith
    with False show ?thesis unfolding step by (simp add: update_growth)
  qed
qed

lemma growth_flip_unique:
  assumes "tgt_growth t"
  shows "\<exists>!n. tgt_growth ((update ^^ n) t) \<and> \<not> tgt_growth ((update ^^ Suc n) t)"
proof -
  let ?off = "\<lambda>m. \<not> tgt_growth ((update ^^ m) t)"
  obtain m where m: "MAX_SIZE - tgt_size t < real m * GROWTH_RATE"
    using ex_less_of_nat_mult [of GROWTH_RATE "MAX_SIZE - tgt_size t"]
    by (auto simp: GROWTH_RATE_def)
  moreover have "real (Suc m) * GROWTH_RATE = real m * GROWTH_RATE + GROWTH_RATE"
    by (simp add: algebra_simps)
  moreover have "0 < GROWTH_RATE" by (simp add: GROWTH_RATE_def)
  ultimately have "\<not> tgt_size t + real (Suc m) * GROWTH_RATE < MAX_SIZE"
    by linarith
  then have ex: "?off (Suc m)"
    using growth_funpow [OF assms, of "Suc m"] by simp
  define N where "N = (LEAST m. ?off m)"
  have offN: "?off N" unfolding N_def using ex by (rule LeastI)
  have "N \<noteq> 0" using offN assms by (cases N) auto
  then obtain n where n: "N = Suc n" by (cases N) auto
  have "n < N" using n by simp
  then have "\<not> ?off n" unfolding N_def by (rule not_less_Least)
  with offN n have flip: "tgt_growth ((update ^^ n) t) \<and> \<not> tgt_growth ((update ^^ Suc n) t)"
    by simp
  show ?thesis
  proof (rule ex1I [of _ n])
    show "tgt_growth ((update ^^ n) t) \<and> \<not> tgt_growth ((update ^^ Suc n) t)" by (rule flip)
  next
    fix k assume k: "tgt_growth ((update ^^ k) t) \<and> \<not> tgt_growth ((update ^^ Suc k) t)"
    show "k = n"
    proof (rule ccontr)
      assume "k \<noteq> n"
      then consider "k < n" | "n < k" by linarith
      then show False
      proof cases
        case 1
        then have "Suc k \<le> n" by simp
        with k growth_off_later [of "Suc k" t n] flip show False by blast
      next
        case 2
        then have "Suc n \<le> k" by simp
        with flip growth_off_later [of "Suc n" t k] k show False by blast
      qed
    qed
  qed
qed

text \<open>
  C6. The growth flag goes from true to false exactly once and never back. An update
  leaves the flag true exactly when it was true and adding the growth rate stays below
  \<open>MAX_SIZE\<close>, so it is cleared by the first update at which
  \<open>size + GROWTH_RATE \<ge> MAX_SIZE\<close>. Once the flag is false it is false after any
  number of updates, and every one of those updates makes the radius strictly smaller.
  A target whose flag is true, as every target is when constructed, has exactly one
  update in its future that turns the flag from true to false.
\<close>

theorem growth_flips_once:
  "(tgt_growth (update t) \<longleftrightarrow> tgt_growth t \<and> tgt_size t + GROWTH_RATE < MAX_SIZE)
   \<and> (\<not> tgt_growth t \<longrightarrow>
        \<not> tgt_growth ((update ^^ m) t)
        \<and> tgt_size ((update ^^ Suc m) t) < tgt_size ((update ^^ m) t))
   \<and> (tgt_growth t \<longrightarrow>
        (\<exists>!n. tgt_growth ((update ^^ n) t) \<and> \<not> tgt_growth ((update ^^ Suc n) t)))
   \<and> tgt_growth (Target k px py)"
proof -
  have "tgt_size ((update ^^ Suc m) t) < tgt_size ((update ^^ m) t)" if "\<not> tgt_growth t"
    using growth_stays_off [OF that, of m] by (simp add: update_size GROWTH_RATE_def)
  then show ?thesis
    using growth_stays_off [of t m] growth_flip_unique [of t]
    by (simp add: update_growth Target_def)
qed

theorem growth_flips_once_witness:
  "\<not> tgt_growth (aged 150 0 100 100)
   \<and> \<not> tgt_growth ((update ^^ 7) (aged 150 0 100 100))
   \<and> tgt_size ((update ^^ Suc 7) (aged 150 0 100 100))
       < tgt_size ((update ^^ 7) (aged 150 0 100 100))
   \<and> tgt_growth (Target 0 100 100)
   \<and> (\<exists>!n. tgt_growth ((update ^^ n) (Target 0 100 100))
          \<and> \<not> tgt_growth ((update ^^ Suc n) (Target 0 100 100)))"
proof -
  have f: "\<not> tgt_growth (aged 150 0 100 100)"
    by (simp add: aged_def update_funpow_fresh)
  from growth_flips_once [of "aged 150 0 100 100" 7 0 100 100]
    growth_flips_once [of "Target 0 100 100" 7 0 100 100] f
  show ?thesis by blast
qed

text \<open>
  C10. A target as constructed (radius 0, no update yet) is hit by the point at its
  centre and by no other point.
\<close>

theorem collide_fresh:
  "collide (Target k cx cy) px py \<longleftrightarrow> px = cx \<and> py = cy"
proof -
  have "(cx - px) ^ 2 + (cy - py) ^ 2 \<le> 0 \<longleftrightarrow> px = cx \<and> py = cy"
  proof
    assume a: "(cx - px) ^ 2 + (cy - py) ^ 2 \<le> 0"
    have "0 \<le> (cx - px) ^ 2" "0 \<le> (cy - py) ^ 2" by simp_all
    with a have "(cx - px) ^ 2 = 0" "(cy - py) ^ 2 = 0" by linarith+
    then show "px = cx \<and> py = cy" by simp
  qed simp
  moreover have "collide (Target k cx cy) px py \<longleftrightarrow> (cx - px) ^ 2 + (cy - py) ^ 2 \<le> 0"
    unfolding collide_iff Target_def by (simp del: of_int_add of_int_power add: of_int_le_0_iff)
  ultimately show ?thesis by simp
qed

section \<open>The loop over the targets keeps objects apart\<close>

lemma list_remove_nth:
  "distinct (map oid ts) \<Longrightarrow> i < length ts \<Longrightarrow>
   list_remove (oid (ts ! i)) ts = Inr (take i ts @ drop (Suc i) ts)"
proof (induction ts arbitrary: i)
  case Nil
  then show ?case by simp
next
  case (Cons t ts)
  show ?case
  proof (cases i)
    case 0
    then show ?thesis by simp
  next
    case (Suc j)
    with Cons.prems have j: "j < length ts" and d: "distinct (map oid ts)"
      and "oid t \<notin> oid ` set ts" by auto
    then have "oid t \<noteq> oid (ts ! j)" by (metis imageI nth_mem)
    with Cons.IH [OF d j] Suc show ?thesis by simp
  qed
qed

lemma list_remove_absent: "k \<notin> oid ` set ts \<Longrightarrow> list_remove k ts = Inl ValueError"
  by (induction ts) auto

lemma oid_list_update:
  "i < length ts \<Longrightarrow> map oid (ts[i := update (ts ! i)]) = map oid ts"
  by (simp add: map_update update_oid list_update_same_conv)

lemma distinct_remove_nth:
  "distinct (map oid ts) \<Longrightarrow> i < length ts \<Longrightarrow>
   oid (ts ! i) \<notin> oid ` set (take i ts @ drop (Suc i) ts)"
proof -
  assume d: "distinct (map oid ts)" and i: "i < length ts"
  have "ts = take i ts @ ts ! i # drop (Suc i) ts" using i by (rule id_take_nth_drop)
  then have "distinct (map oid (take i ts @ ts ! i # drop (Suc i) ts))" using d by simp
  then show ?thesis by auto
qed

text \<open>What one pass of the loop body does to a list of distinct objects.\<close>

lemma loop_body_cases:
  assumes d: "distinct (map oid (targets g))" and i: "i < length (targets g)"
  shows "loop_body i g =
     (let t = update (targets g ! i);
          expired = tgt_size t \<le> 0;
          hit = click g \<and> collide t (fst (mouse_pos g)) (snd (mouse_pos g));
          others = take i (targets g) @ drop (Suc i) (targets g)
      in if expired \<and> hit then Inl ValueError
         else if expired then Inr (g\<lparr>targets := others, misses := misses g + 1\<rparr>)
         else if hit then Inr (g\<lparr>targets := others, targets_pressed := targets_pressed g + 1\<rparr>)
         else Inr (g\<lparr>targets := (targets g)[i := t]\<rparr>))"
proof -
  let ?ts = "targets g"
  let ?t = "update (?ts ! i)"
  let ?ts1 = "?ts[i := ?t]"
  let ?others = "take i ?ts @ drop (Suc i) ?ts"
  have d1: "distinct (map oid ?ts1)" using d i by (simp add: oid_list_update)
  have i1: "i < length ?ts1" using i by simp
  have nth1: "?ts1 ! i = ?t" using i by simp
  have "list_remove (oid (?ts1 ! i)) ?ts1 = Inr (take i ?ts1 @ drop (Suc i) ?ts1)"
    using d1 i1 by (rule list_remove_nth)
  then have rm: "list_remove (oid ?t) ?ts1 = Inr ?others"
    using i by (simp add: nth1)
  have "oid (?ts ! i) \<notin> oid ` set ?others" using d i by (rule distinct_remove_nth)
  then have gone: "list_remove (oid ?t) ?others = Inl ValueError"
    by (intro list_remove_absent) (simp add: update_oid)
  show ?thesis
    by (simp add: loop_body_def Let_def rm gone)
qed

lemma for_targets_preserves:
  assumes body: "\<And>i g g'. I g \<Longrightarrow> i < length (targets g) \<Longrightarrow> loop_body i g = Inr g' \<Longrightarrow> I g'"
  shows "for_targets i g = Inr r \<Longrightarrow> I g \<Longrightarrow> I r"
proof (induction i g rule: for_targets.induct)
  case (1 i g)
  show ?case
  proof (cases "i < length (targets g)")
    case True
    with "1.prems"(1) obtain g' where b: "loop_body i g = Inr g'"
      and rest: "for_targets (Suc i) g' = Inr r"
      by (subst (asm) for_targets.simps) (auto split: sum.splits)
    from body [OF "1.prems"(2) True b] have "I g'" .
    with "1.IH" [OF True b rest] show ?thesis .
  next
    case False
    with "1.prems" show ?thesis by (subst (asm) for_targets.simps) simp
  qed
qed

lemma loop_body_frame:
  "loop_body i g = Inr g' \<Longrightarrow>
     run g' = run g \<and> clicks g' = clicks g \<and> start_time g' = start_time g \<and>
     click g' = click g \<and> mouse_pos g' = mouse_pos g \<and> elapsed_time g' = elapsed_time g \<and>
     next_oid g' = next_oid g \<and> misses g \<le> misses g' \<and>
     targets_pressed g \<le> targets_pressed g'"
  by (auto simp: loop_body_def Let_def split: if_splits sum.splits)

lemma loop_body_targets:
  assumes "distinct (map oid (targets g))" and "i < length (targets g)"
    and "loop_body i g = Inr g'"
  shows "targets g' = take i (targets g) @ drop (Suc i) (targets g) \<or>
         targets g' = (targets g)[i := update (targets g ! i)] \<and>
           0 < tgt_size (update (targets g ! i))"
  using assms(3) unfolding loop_body_cases [OF assms(1,2)]
  by (auto simp: Let_def split: if_splits)

lemma set_others: "set (take i ts @ drop (Suc i) ts) \<subseteq> set ts"
  using set_take_subset [of i ts] set_drop_subset [of "Suc i" ts] by auto

lemma distinct_others:
  "distinct (map oid ts) \<Longrightarrow> distinct (map oid (take i ts @ drop (Suc i) ts))"
proof -
  assume d: "distinct (map oid ts)"
  have "map oid ts = map oid (take i ts) @ map oid (drop i ts)"
    by (metis append_take_drop_id map_append)
  moreover have "set (drop (Suc i) ts) \<subseteq> set (drop i ts)"
    by (metis Suc_n_not_le_n nat_le_linear set_drop_subset_set_drop)
  moreover have "distinct (map oid (drop (Suc i) ts))" using d by (simp add: distinct_drop drop_map [symmetric])
  moreover have "distinct (map oid (take i ts))" using d by (simp add: distinct_take take_map [symmetric])
  ultimately show ?thesis using d by (auto simp: distinct_append)
qed

lemma loop_body_ids_ok:
  assumes ok: "ids_ok g" and i: "i < length (targets g)" and b: "loop_body i g = Inr g'"
  shows "ids_ok g'"
proof -
  from ok have d: "distinct (map oid (targets g))"
    and lt: "\<forall>t \<in> set (targets g). oid t < next_oid g"
    by (simp_all add: ids_ok_def list_all_iff)
  have n: "next_oid g' = next_oid g" using loop_body_frame [OF b] by simp
  from loop_body_targets [OF d i b] show ?thesis
  proof
    assume eq: "targets g' = take i (targets g) @ drop (Suc i) (targets g)"
    then have "set (targets g') \<subseteq> set (targets g)" using set_others by metis
    with lt distinct_others [OF d, of i] eq n show ?thesis
      by (auto simp: ids_ok_def list_all_iff)
  next
    assume "targets g' = (targets g)[i := update (targets g ! i)] \<and>
      0 < tgt_size (update (targets g ! i))"
    then have eq: "targets g' = (targets g)[i := update (targets g ! i)]" ..
    then have m: "map oid (targets g') = map oid (targets g)"
      using i by (simp add: oid_list_update)
    have "\<forall>t \<in> set (targets g'). oid t < next_oid g"
    proof
      fix t assume "t \<in> set (targets g')"
      then have "oid t \<in> set (map oid (targets g'))" by simp
      then have "oid t \<in> oid ` set (targets g)" unfolding m by simp
      with lt show "oid t < next_oid g" by auto
    qed
    with d m n show ?thesis by (simp add: ids_ok_def list_all_iff)
  qed
qed

text \<open>
  A property of single targets that an update keeps whenever the updated target
  stays in the list holds for every target the loop body leaves in the list.
\<close>

lemma loop_body_all:
  assumes ok: "ids_ok g" and i: "i < length (targets g)" and b: "loop_body i g = Inr g'"
    and allP: "\<forall>t \<in> set (targets g). P t"
    and upd: "\<And>t. P t \<Longrightarrow> 0 < tgt_size (update t) \<Longrightarrow> P (update t)"
  shows "\<forall>t \<in> set (targets g'). P t"
proof -
  from ok have d: "distinct (map oid (targets g))" by (simp add: ids_ok_def)
  from loop_body_targets [OF d i b] show ?thesis
  proof
    assume "targets g' = take i (targets g) @ drop (Suc i) (targets g)"
    then have "set (targets g') \<subseteq> set (targets g)" using set_others by metis
    with allP show ?thesis by auto
  next
    assume a: "targets g' = (targets g)[i := update (targets g ! i)] \<and>
      0 < tgt_size (update (targets g ! i))"
    have "P (targets g ! i)" using allP i by simp
    with a upd have "P (update (targets g ! i))" by simp
    moreover have "set (targets g') \<subseteq> insert (update (targets g ! i)) (set (targets g))"
      using a set_update_subset_insert by metis
    ultimately show ?thesis using allP by auto
  qed
qed

lemma for_targets_ids_all:
  assumes "for_targets i g = Inr r" and "ids_ok g" and "\<forall>t \<in> set (targets g). P t"
    and upd: "\<And>t. P t \<Longrightarrow> 0 < tgt_size (update t) \<Longrightarrow> P (update t)"
  shows "ids_ok r \<and> (\<forall>t \<in> set (targets r). P t)"
proof -
  have "\<And>i g g'. ids_ok g \<and> (\<forall>t \<in> set (targets g). P t) \<Longrightarrow> i < length (targets g) \<Longrightarrow>
      loop_body i g = Inr g' \<Longrightarrow> ids_ok g' \<and> (\<forall>t \<in> set (targets g'). P t)"
    using loop_body_ids_ok loop_body_all upd by blast
  from for_targets_preserves [where I = "\<lambda>g. ids_ok g \<and> (\<forall>t \<in> set (targets g). P t)", OF this assms(1)]
  show ?thesis using assms(2,3) by simp
qed

text \<open>The event loop.\<close>

lemma handle_event_next_oid: "next_oid g \<le> next_oid (handle_event e g)"
  by (cases e) (simp_all add: handle_event_def)

lemma handle_event_ids_all:
  assumes "ids_ok g" and "\<forall>t \<in> set (targets g). P t"
    and "\<And>px py. e = TARGET_EVENT px py \<Longrightarrow> P (Target (next_oid g) px py)"
  shows "ids_ok (handle_event e g) \<and> (\<forall>t \<in> set (targets (handle_event e g)). P t)"
  using assms
  by (cases e) (auto simp: handle_event_def ids_ok_def list_all_iff Target_def less_Suc_eq)

lemma handle_events_ids_all:
  assumes "ids_ok g" and "\<forall>t \<in> set (targets g). P t" and "n0 \<le> next_oid g"
    and "\<And>k px py. TARGET_EVENT px py \<in> set es \<Longrightarrow> n0 \<le> k \<Longrightarrow> P (Target k px py)"
  shows "ids_ok (handle_events es g) \<and> (\<forall>t \<in> set (targets (handle_events es g)). P t)"
  using assms
proof (induction es arbitrary: g)
  case Nil
  then show ?case by simp
next
  case (Cons e es)
  show ?case
  proof (cases "e = QUIT")
    case True
    with Cons.prems(1,2) show ?thesis by (simp add: ids_ok_def)
  next
    case False
    have "ids_ok (handle_event e g) \<and> (\<forall>t \<in> set (targets (handle_event e g)). P t)"
      using Cons.prems by (intro handle_event_ids_all) auto
    moreover have "n0 \<le> next_oid (handle_event e g)"
      using Cons.prems(3) handle_event_next_oid [of g e] by simp
    ultimately have "ids_ok (handle_events es (handle_event e g)) \<and>
        (\<forall>t \<in> set (targets (handle_events es (handle_event e g))). P t)"
      using Cons.prems(4) by (intro Cons.IH) auto
    with False show ?thesis by simp
  qed
qed

lemma tick_RUNNING_D:
  assumes "tick g inp = RUNNING g'"
  shows "update_phase g inp = Inr g'"
    and "misses g' < LIVES" and "run g'" and "elapsed_time g' \<noteq> 0"
  using assms
  by (auto simp: tick_def Let_def draw_top_bar_def split: sum.splits if_splits)

lemma update_phase_ids_all:
  assumes t: "update_phase g inp = Inr g'" and "ids_ok g" and "\<forall>t \<in> set (targets g). P t"
    and new: "\<And>k px py. TARGET_EVENT px py \<in> set (events inp) \<Longrightarrow> next_oid g \<le> k \<Longrightarrow>
              P (Target k px py)"
    and upd: "\<And>t. P t \<Longrightarrow> 0 < tgt_size (update t) \<Longrightarrow> P (update t)"
  shows "ids_ok g' \<and> (\<forall>t \<in> set (targets g'). P t)"
proof -
  let ?g0 = "g\<lparr>click := False, mouse_pos := mouse inp,
              elapsed_time := time_now inp - start_time g\<rparr>"
  have "ids_ok ?g0" "\<forall>t \<in> set (targets ?g0). P t" "next_oid g \<le> next_oid ?g0"
    using assms(2,3) by (simp_all add: ids_ok_def)
  then have "ids_ok (handle_events (events inp) ?g0) \<and>
      (\<forall>t \<in> set (targets (handle_events (events inp) ?g0)). P t)"
    using new by (intro handle_events_ids_all [where ?n0.0 = "next_oid g"]) auto
  with t upd show ?thesis
    unfolding update_phase_def by (intro for_targets_ids_all [where i = 0]) auto
qed

lemma tick_ids_all:
  assumes "tick g inp = RUNNING g'" and "ids_ok g" and "\<forall>t \<in> set (targets g). P t"
    and "\<And>k px py. TARGET_EVENT px py \<in> set (events inp) \<Longrightarrow> next_oid g \<le> k \<Longrightarrow>
         P (Target k px py)"
    and "\<And>t. P t \<Longrightarrow> 0 < tgt_size (update t) \<Longrightarrow> P (update t)"
  shows "ids_ok g' \<and> (\<forall>t \<in> set (targets g'). P t)"
  using update_phase_ids_all [OF tick_RUNNING_D(1) [OF assms(1)] assms(2-5)] by simp

lemma radius_ok_update: "radius_ok t \<Longrightarrow> 0 < tgt_size (update t) \<Longrightarrow> radius_ok (update t)"
  by (auto simp: radius_ok_def update_size GROWTH_RATE_def MAX_SIZE_def split: if_splits)

lemma in_play_area_update: "in_play_area (update t) = in_play_area t"
  by (simp add: in_play_area_def update_x update_y)

lemma randint_ok_in_play_area:
  "randint_ok (TARGET_EVENT px py) \<Longrightarrow> in_play_area (Target k px py)"
  by (simp add: in_play_area_def Target_def)

lemma reachable_inv:
  "reachable g \<Longrightarrow>
     ids_ok g \<and> (\<forall>t \<in> set (targets g). radius_ok t \<and> in_play_area t)"
proof (induction rule: reachable.induct)
  case (init st)
  show ?case by (simp add: main_init_def ids_ok_def)
next
  case (tick g inp g')
  have new: "\<And>k px py. TARGET_EVENT px py \<in> set (events inp) \<Longrightarrow> next_oid g \<le> k \<Longrightarrow>
      radius_ok (Target k px py) \<and> in_play_area (Target k px py)"
  proof -
    fix k px py assume "TARGET_EVENT px py \<in> set (events inp)"
    with tick.hyps(2) have "randint_ok (TARGET_EVENT px py)"
      unfolding wf_input_def list_all_iff by blast
    then have "in_play_area (Target k px py)" by (rule randint_ok_in_play_area)
    moreover have "radius_ok (Target k px py)"
      by (simp add: radius_ok_def Target_def MAX_SIZE_def)
    ultimately show "radius_ok (Target k px py) \<and> in_play_area (Target k px py)" by simp
  qed
  have upd: "\<And>t. radius_ok t \<and> in_play_area t \<Longrightarrow> 0 < tgt_size (update t) \<Longrightarrow>
      radius_ok (update t) \<and> in_play_area (update t)"
    by (simp add: radius_ok_update in_play_area_update)
  from tick.IH have "ids_ok g" "\<forall>t \<in> set (targets g). radius_ok t \<and> in_play_area t"
    by simp_all
  from tick_ids_all [where P = "\<lambda>t. radius_ok t \<and> in_play_area t", OF tick.hyps(3) this new upd]
  show ?case .
qed

section \<open>Sessions without clicks\<close>

text \<open>
  Iterations without a click are evaluated in closed form: the targets of such a
  session are fresh targets after some number of updates.
\<close>

lemma steps_append: "steps s (xs @ ys) = steps (steps s xs) ys"
  by (induction xs arbitrary: s) simp_all

lemma update_aged: "update (aged n k px py) = aged (Suc n) k px py"
  by (simp add: aged_def)

lemma funpow_aged: "(update ^^ j) (aged n k px py) = aged (j + n) k px py"
  by (simp add: aged_def funpow_add)

lemma aged_size:
  "tgt_size (aged n k px py) = (if n < 150 then real n / 5 else (298 - real n) / 5)"
  by (simp add: aged_def update_funpow_fresh GROWTH_RATE_def)

lemma aged_size_pos: "0 < tgt_size (aged n k px py) \<longleftrightarrow> 0 < n \<and> n < 298"
  by (auto simp: aged_size)

lemma aged_oid: "oid (aged n k px py) = k"
  by (simp add: aged_def update_funpow_fresh)

lemma aged_x: "tgt_x (aged n k px py) = px"
  by (simp add: aged_def update_funpow_fresh)

lemma aged_y: "tgt_y (aged n k px py) = py"
  by (simp add: aged_def update_funpow_fresh)

text \<open>
  Without a click, and while no radius runs out, the loop updates every target once
  and removes none.
\<close>

lemma loop_body_quiet:
  assumes "\<not> click g" and "0 < tgt_size (update (targets g ! i))"
  shows "loop_body i g = Inr (g\<lparr>targets := (targets g)[i := update (targets g ! i)]\<rparr>)"
  using assms by (simp add: loop_body_def Let_def)

lemma for_targets_quiet:
  "\<not> click g \<Longrightarrow> \<forall>t \<in> set (drop i (targets g)). 0 < tgt_size (update t) \<Longrightarrow>
   for_targets i g = Inr (g\<lparr>targets := take i (targets g) @ map update (drop i (targets g))\<rparr>)"
proof (induction i g rule: for_targets.induct)
  case (1 i g)
  let ?ts = "targets g"
  show ?case
  proof (cases "i < length ?ts")
    case False
    then show ?thesis by (subst for_targets.simps) simp
  next
    case True
    let ?u = "update (?ts ! i)"
    let ?g' = "g\<lparr>targets := ?ts[i := ?u]\<rparr>"
    have dr: "drop i ?ts = ?ts ! i # drop (Suc i) ?ts"
      using True by (simp add: Cons_nth_drop_Suc)
    with "1.prems"(2) have pos: "0 < tgt_size ?u"
      and rest: "\<forall>t \<in> set (drop (Suc i) ?ts). 0 < tgt_size (update t)" by simp_all
    have b: "loop_body i g = Inr ?g'"
      using "1.prems"(1) pos by (rule loop_body_quiet)
    have "for_targets (Suc i) ?g' =
        Inr (?g'\<lparr>targets := take (Suc i) (targets ?g') @ map update (drop (Suc i) (targets ?g'))\<rparr>)"
      using "1.prems"(1) rest by (intro "1.IH" [OF True b]) simp_all
    moreover have "take (Suc i) (?ts[i := ?u]) = take i ?ts @ [?u]"
      using True by (simp add: take_Suc_conv_app_nth)
    ultimately have "for_targets (Suc i) ?g' =
        Inr (g\<lparr>targets := take i ?ts @ map update (drop i ?ts)\<rparr>)"
      by (simp add: dr)
    then show ?thesis using True b by (subst for_targets.simps) simp
  qed
qed

lemma idle_tick:
  assumes "misses g < LIVES" and "time_now inp \<noteq> start_time g" and "events inp = []"
    and "\<forall>t \<in> set (targets g). 0 < tgt_size (update t)" and "run g"
  shows "tick g inp =
     RUNNING (g\<lparr>click := False, mouse_pos := mouse inp,
                elapsed_time := time_now inp - start_time g,
                targets := map update (targets g)\<rparr>)"
proof -
  let ?g0 = "g\<lparr>click := False, mouse_pos := mouse inp,
               elapsed_time := time_now inp - start_time g\<rparr>"
  have "for_targets 0 ?g0 = Inr (?g0\<lparr>targets := take 0 (targets ?g0) @ map update (drop 0 (targets ?g0))\<rparr>)"
    using assms(4) by (intro for_targets_quiet) simp_all
  then show ?thesis using assms(1,2,3,5)
    by (simp add: tick_def update_phase_def Let_def draw_top_bar_def)
qed

lemma idle_state_tick:
  assumes "m < LIVES" and "\<forall>t \<in> set ts. 0 < tgt_size (update t)"
  shows "tick (idle_state k ts m n) (frame (Suc k) [] (0, 0)) =
         RUNNING (idle_state (Suc k) (map update ts) m n)"
  using idle_tick [of "idle_state k ts m n" "frame (Suc k) [] (0, 0)"] assms
  by (simp add: idle_state_def frame_def)

lemma idle_state_frames:
  assumes m: "m < LIVES"
  shows "\<forall>t \<in> set ts. \<forall>i < j. 0 < tgt_size ((update ^^ Suc i) t) \<Longrightarrow>
     steps (RUNNING (idle_state k ts m n)) (idle_frames (Suc k) j) =
     RUNNING (idle_state (k + j) (map (update ^^ j) ts) m n)"
proof (induction j)
  case 0
  show ?case by (simp add: idle_frames_def)
next
  case (Suc j)
  have split: "idle_frames (Suc k) (Suc j) = idle_frames (Suc k) j @ [frame (Suc (k + j)) [] (0, 0)]"
    by (simp add: idle_frames_def)
  have "steps (RUNNING (idle_state k ts m n)) (idle_frames (Suc k) j) =
     RUNNING (idle_state (k + j) (map (update ^^ j) ts) m n)"
    using Suc.prems by (intro Suc.IH) auto
  moreover have "tick (idle_state (k + j) (map (update ^^ j) ts) m n) (frame (Suc (k + j)) [] (0, 0)) =
         RUNNING (idle_state (Suc (k + j)) (map update (map (update ^^ j) ts)) m n)"
    using m Suc.prems by (intro idle_state_tick) auto
  ultimately show ?case by (simp add: split steps_append comp_def)
qed

lemma spawn_tick:
  assumes "m < LIVES" and "\<forall>t \<in> set ts. 0 < tgt_size (update t)"
  shows "tick (idle_state k ts m n) (frame (Suc k) [TARGET_EVENT px py] (0, 0)) =
         RUNNING (idle_state (Suc k) (map update ts @ [aged 1 n px py]) m (Suc n))"
proof -
  let ?g1 = "(idle_state k ts m n)\<lparr>elapsed_time := real (Suc k) / 60,
      targets := ts @ [Target n px py], next_oid := Suc n\<rparr>"
  have pos: "0 < tgt_size (update (Target n px py))"
    using aged_size_pos [of 1 n px py] by (simp add: aged_def)
  have "for_targets 0 ?g1 = Inr (?g1\<lparr>targets := take 0 (targets ?g1) @ map update (drop 0 (targets ?g1))\<rparr>)"
    using assms(2) pos by (intro for_targets_quiet) (auto simp: idle_state_def)
  then show ?thesis using assms(1)
    by (simp add: tick_def update_phase_def Let_def draw_top_bar_def idle_state_def frame_def
      handle_event_def aged_def)
qed

text \<open>
  When the first of two targets runs out in an iteration without events, the second one
  is left as it is, whatever it is. With the last life gone the end screen is called,
  and the player has not clicked.
\<close>

lemma expiry_tick:
  assumes "tgt_size (update a) \<le> 0"
  shows "tick (idle_state k [a, b] m n) (frame (Suc k) [] (0, 0)) =
     (if m + 1 < LIVES then RUNNING (idle_state (Suc k) [b] (m + 1) n)
      else CRASHED ZeroDivisionError)"
  using assms
  by (simp add: tick_def update_phase_def Let_def draw_top_bar_def end_screen_def idle_state_def
      frame_def for_targets.simps loop_body_def)

section \<open>Reachable states: radius and position of the stored targets\<close>

text \<open>The first two iterations of a session whose first target appears at once.\<close>

lemma first_tick:
  "tick (main_init 0) (frame 1 [TARGET_EVENT 100 100] (0, 0)) =
     RUNNING (idle_state 1 [aged 1 0 100 100] 0 1)"
proof -
  have "main_init 0 = idle_state 0 [] 0 0"
    by (simp add: main_init_def idle_state_def)
  then show ?thesis using spawn_tick [of 0 "[]" 0 0 100 100] by (simp add: LIVES_def)
qed

lemma reachable_first: "reachable (idle_state 1 [aged 1 0 100 100] 0 1)"
proof -
  have "wf_input (frame 1 [TARGET_EVENT 100 100] (0, 0))"
    by (simp add: wf_input_def frame_def TARGET_PADDING_def WIDTH_def HEIGHT_def TOP_BAR_HEIGHT_def)
  with reachable.init [of 0] show ?thesis using first_tick by (rule reachable.tick)
qed

lemma second_tick:
  "tick (idle_state 1 [aged 1 0 100 100] 0 1) (frame 2 [] (0, 0)) =
     RUNNING (idle_state 2 [aged 2 0 100 100] 0 1)"
proof -
  have "tick (idle_state 1 [aged 1 0 100 100] 0 1) (frame (Suc 1) [] (0, 0)) =
     RUNNING (idle_state (Suc 1) (map update [aged 1 0 100 100]) 0 1)"
    by (intro idle_state_tick) (simp_all add: LIVES_def update_aged aged_size_pos)
  then show ?thesis by (simp add: update_aged numeral_2_eq_2)
qed

text \<open>
  C1. In every state the main loop can reach (from the empty list, by iterations that
  end back in the loop), every target stored in the list has a radius between 0 and
  \<open>MAX_SIZE\<close>; so has every target left in the list by the two inner loops of the next
  iteration, whether that iteration goes on in the loop, enters the end screen or
  exits. Targets start at radius 0.
\<close>

theorem radius_within_bounds:
  assumes "reachable g"
  shows "(t \<in> set (targets g) \<longrightarrow> 0 \<le> tgt_size t \<and> tgt_size t \<le> MAX_SIZE)
       \<and> (update_phase g inp = Inr g2 \<and> t2 \<in> set (targets g2) \<longrightarrow>
            0 \<le> tgt_size t2 \<and> tgt_size t2 \<le> MAX_SIZE)
       \<and> tgt_size (Target k px py) = 0"
proof -
  from reachable_inv [OF assms] have ok: "ids_ok g"
    and all: "\<forall>t \<in> set (targets g). radius_ok t" by simp_all
  have new: "\<And>k px py. TARGET_EVENT px py \<in> set (events inp) \<Longrightarrow> next_oid g \<le> k \<Longrightarrow>
      radius_ok (Target k px py)"
    by (simp add: radius_ok_def Target_def MAX_SIZE_def)
  have "\<forall>t \<in> set (targets g2). radius_ok t" if "update_phase g inp = Inr g2"
    using update_phase_ids_all [where P = radius_ok, OF that ok all new radius_ok_update]
    by simp
  with all show ?thesis by (auto simp: radius_ok_def Target_def)
qed

theorem radius_within_bounds_witness:
  "reachable (idle_state 1 [aged 1 0 100 100] 0 1)
   \<and> aged 1 0 100 100 \<in> set (targets (idle_state 1 [aged 1 0 100 100] 0 1))
   \<and> update_phase (idle_state 1 [aged 1 0 100 100] 0 1) (frame 2 [] (0, 0)) =
       Inr (idle_state 2 [aged 2 0 100 100] 0 1)
   \<and> aged 2 0 100 100 \<in> set (targets (idle_state 2 [aged 2 0 100 100] 0 1))
   \<and> 0 \<le> tgt_size (aged 1 0 100 100) \<and> tgt_size (aged 1 0 100 100) \<le> MAX_SIZE
   \<and> 0 \<le> tgt_size (aged 2 0 100 100) \<and> tgt_size (aged 2 0 100 100) \<le> MAX_SIZE
   \<and> tgt_size (Target 0 100 100) = 0"
proof -
  have m: "aged 1 0 100 100 \<in> set (targets (idle_state 1 [aged 1 0 100 100] 0 1))"
    "aged 2 0 100 100 \<in> set (targets (idle_state 2 [aged 2 0 100 100] 0 1))"
    by (simp_all add: idle_state_def)
  note u = tick_RUNNING_D(1) [OF second_tick]
  from radius_within_bounds [OF reachable_first, of "aged 1 0 100 100" "frame 2 [] (0, 0)"
      "idle_state 2 [aged 2 0 100 100] 0 1" "aged 2 0 100 100" 0 100 100]
    reachable_first m u
  show ?thesis by simp
qed

lemma same_object:
  assumes "distinct (map oid ts)" and "t \<in> set ts" and "t' \<in> set ts" and "oid t' = oid t"
  shows "t' = t"
  using assms by (meson distinct_map inj_on_def)

lemma tick_same_object:
  assumes r: "ids_ok g" and tk: "tick g inp = RUNNING g'"
    and t: "t \<in> set (targets g)" and t': "t' \<in> set (targets g')" and o: "oid t' = oid t"
  shows "tgt_x t' = tgt_x t \<and> tgt_y t' = tgt_y t"
proof -
  let ?P = "\<lambda>u. \<forall>v \<in> set (targets g). oid u = oid v \<longrightarrow> tgt_x u = tgt_x v \<and> tgt_y u = tgt_y v"
  from r have d: "distinct (map oid (targets g))"
    and lt: "\<forall>v \<in> set (targets g). oid v < next_oid g"
    by (simp_all add: ids_ok_def list_all_iff)
  have old: "\<forall>u \<in> set (targets g). ?P u"
    using same_object [OF d] by blast
  have new: "\<And>k px py. TARGET_EVENT px py \<in> set (events inp) \<Longrightarrow> next_oid g \<le> k \<Longrightarrow>
      ?P (Target k px py)"
    using lt by (auto simp: Target_def)
  have upd: "\<And>u. ?P u \<Longrightarrow> 0 < tgt_size (update u) \<Longrightarrow> ?P (update u)"
    by (simp add: update_oid update_x update_y)
  from tick_ids_all [where P = ?P, OF tk r old new upd] have "\<forall>u \<in> set (targets g'). ?P u"
    by simp
  with t t' o show ?thesis by blast
qed

text \<open>
  C9. Every target stored in a reachable state has its centre in the padded play area;
  a target constructed from numbers \<open>random.randint\<close> can return lies in that area;
  \<open>update\<close> leaves \<open>x\<close> and \<open>y\<close> as they are; and an object that is in the list
  before and after an iteration has the same centre before and after.
\<close>

theorem target_position_fixed:
  assumes "reachable g" and "t \<in> set (targets g)"
  shows "(TARGET_PADDING \<le> tgt_x t \<and> tgt_x t \<le> WIDTH - TARGET_PADDING \<and>
          TARGET_PADDING + TOP_BAR_HEIGHT \<le> tgt_y t \<and> tgt_y t \<le> HEIGHT - TARGET_PADDING)
       \<and> (randint_ok (TARGET_EVENT px py) \<longrightarrow> in_play_area (Target k px py))
       \<and> tgt_x (update t) = tgt_x t \<and> tgt_y (update t) = tgt_y t
       \<and> (tick g inp = RUNNING g' \<and> t' \<in> set (targets g') \<and> oid t' = oid t \<longrightarrow>
            tgt_x t' = tgt_x t \<and> tgt_y t' = tgt_y t)"
proof -
  from reachable_inv [OF assms(1)] assms(2) have ok: "ids_ok g" and "in_play_area t"
    by simp_all
  then have "TARGET_PADDING \<le> tgt_x t \<and> tgt_x t \<le> WIDTH - TARGET_PADDING \<and>
          TARGET_PADDING + TOP_BAR_HEIGHT \<le> tgt_y t \<and> tgt_y t \<le> HEIGHT - TARGET_PADDING"
    by (simp add: in_play_area_def)
  moreover have "tick g inp = RUNNING g' \<and> t' \<in> set (targets g') \<and> oid t' = oid t \<longrightarrow>
            tgt_x t' = tgt_x t \<and> tgt_y t' = tgt_y t"
    using tick_same_object [OF ok _ assms(2)] by blast
  ultimately show ?thesis
    using randint_ok_in_play_area by (simp add: update_x update_y)
qed

theorem target_position_fixed_witness:
  "reachable (idle_state 1 [aged 1 0 100 100] 0 1)
   \<and> aged 1 0 100 100 \<in> set (targets (idle_state 1 [aged 1 0 100 100] 0 1))
   \<and> randint_ok (TARGET_EVENT 100 100)
   \<and> tick (idle_state 1 [aged 1 0 100 100] 0 1) (frame 2 [] (0, 0)) =
       RUNNING (idle_state 2 [aged 2 0 100 100] 0 1)
   \<and> aged 2 0 100 100 \<in> set (targets (idle_state 2 [aged 2 0 100 100] 0 1))
   \<and> oid (aged 2 0 100 100) = oid (aged 1 0 100 100)
   \<and> TARGET_PADDING \<le> tgt_x (aged 1 0 100 100)
   \<and> tgt_x (aged 1 0 100 100) \<le> WIDTH - TARGET_PADDING
   \<and> TARGET_PADDING + TOP_BAR_HEIGHT \<le> tgt_y (aged 1 0 100 100)
   \<and> tgt_y (aged 1 0 100 100) \<le> HEIGHT - TARGET_PADDING
   \<and> in_play_area (Target 0 100 100)
   \<and> tgt_x (update (aged 1 0 100 100)) = tgt_x (aged 1 0 100 100)
   \<and> tgt_y (update (aged 1 0 100 100)) = tgt_y (aged 1 0 100 100)
   \<and> tgt_x (aged 2 0 100 100) = tgt_x (aged 1 0 100 100)
   \<and> tgt_y (aged 2 0 100 100) = tgt_y (aged 1 0 100 100)"
proof -
  have m1: "aged 1 0 100 100 \<in> set (targets (idle_state 1 [aged 1 0 100 100] 0 1))"
    and m2: "aged 2 0 100 100 \<in> set (targets (idle_state 2 [aged 2 0 100 100] 0 1))"
    by (simp_all add: idle_state_def)
  have o: "oid (aged 2 0 100 100) = oid (aged 1 0 100 100)" by (simp add: aged_oid)
  have r: "randint_ok (TARGET_EVENT 100 100)"
    by (simp add: TARGET_PADDING_def WIDTH_def HEIGHT_def TOP_BAR_HEIGHT_def)
  from target_position_fixed [OF reachable_first m1, of 100 100 0 "frame 2 [] (0, 0)"
      "idle_state 2 [aged 2 0 100 100] 0 1" "aged 2 0 100 100"]
    reachable_first m1 m2 o r second_tick
  show ?thesis by simp
qed

section \<open>The counters\<close>

lemma handle_event_counters:
  "targets_pressed (handle_event e g) = targets_pressed g \<and>
   clicks g \<le> clicks (handle_event e g) \<and> misses (handle_event e g) = misses g \<and>
   start_time (handle_event e g) = start_time g \<and>
   elapsed_time (handle_event e g) = elapsed_time g"
  by (cases e) (simp_all add: handle_event_def)

lemma handle_events_counters:
  "targets_pressed (handle_events es g) = targets_pressed g \<and>
   clicks g \<le> clicks (handle_events es g) \<and> misses (handle_events es g) = misses g \<and>
   start_time (handle_events es g) = start_time g \<and>
   elapsed_time (handle_events es g) = elapsed_time g"
proof (induction es arbitrary: g)
  case Nil
  show ?case by simp
next
  case (Cons e es)
  from Cons.IH [of "handle_event e g"] handle_event_counters [of e g]
  show ?case by auto
qed

lemma for_targets_counters:
  assumes "for_targets i g = Inr r"
  shows "targets_pressed g \<le> targets_pressed r \<and> clicks r = clicks g \<and>
         misses g \<le> misses r \<and> start_time r = start_time g \<and>
         elapsed_time r = elapsed_time g"
proof -
  let ?I = "\<lambda>h. targets_pressed g \<le> targets_pressed h \<and> clicks h = clicks g \<and>
         misses g \<le> misses h \<and> start_time h = start_time g \<and>
         elapsed_time h = elapsed_time g"
  have "\<And>i h h'. ?I h \<Longrightarrow> i < length (targets h) \<Longrightarrow> loop_body i h = Inr h' \<Longrightarrow> ?I h'"
    using loop_body_frame by fastforce
  from for_targets_preserves [where I = ?I, OF this assms] show ?thesis by simp
qed

lemma update_phase_counters:
  assumes "update_phase g inp = Inr g'"
  shows "targets_pressed g \<le> targets_pressed g' \<and> clicks g \<le> clicks g' \<and>
         misses g \<le> misses g' \<and> start_time g' = start_time g \<and>
         elapsed_time g' = time_now inp - start_time g"
  using for_targets_counters [OF assms [unfolded update_phase_def]]
    handle_events_counters [of "events inp" "g\<lparr>click := False, mouse_pos := mouse inp,
             elapsed_time := time_now inp - start_time g\<rparr>"]
  by simp

lemma tick_counters:
  assumes "tick g inp = RUNNING g'"
  shows "targets_pressed g \<le> targets_pressed g' \<and> clicks g \<le> clicks g' \<and>
         misses g \<le> misses g' \<and> start_time g' = start_time g \<and>
         elapsed_time g' = time_now inp - start_time g"
  using update_phase_counters [OF tick_RUNNING_D(1) [OF assms]] .

text \<open>Only the main loop hands control to the main loop.\<close>

lemma steps_ENDED: "steps (ENDED s) inps = ENDED s \<or> steps (ENDED s) inps = EXITED"
proof (induction inps)
  case Nil
  show ?case by simp
next
  case (Cons inp inps)
  have ex: "steps EXITED inps = EXITED" for inps :: "tick_input list"
    by (induction inps) simp_all
  from Cons ex show ?case by simp
qed

lemma steps_EXITED: "steps EXITED inps = EXITED"
  by (induction inps) simp_all

lemma steps_CRASHED: "steps (CRASHED e) inps = CRASHED e"
  by (induction inps) simp_all

lemma steps_not_RUNNING:
  assumes "\<And>g. s \<noteq> RUNNING g"
  shows "steps s inps \<noteq> RUNNING g'"
proof (cases s)
  case (RUNNING g)
  with assms show ?thesis by blast
next
  case (ENDED x)
  with steps_ENDED [of x inps] show ?thesis by auto
next
  case EXITED
  then show ?thesis by (simp add: steps_EXITED)
next
  case (CRASHED e)
  then show ?thesis by (simp add: steps_CRASHED)
qed

lemma steps_Cons_RUNNING:
  assumes "steps (RUNNING g) (inp # inps) = RUNNING g'"
  shows "\<exists>g1. tick g inp = RUNNING g1 \<and> steps (RUNNING g1) inps = RUNNING g'"
proof (cases "tick g inp")
  case (RUNNING g1)
  with assms show ?thesis by simp
next
  case (ENDED x)
  with assms steps_not_RUNNING [of "ENDED x" inps g'] show ?thesis by simp
next
  case EXITED
  with assms steps_not_RUNNING [of EXITED inps g'] show ?thesis by simp
next
  case (CRASHED e)
  with assms steps_not_RUNNING [of "CRASHED e" inps g'] show ?thesis by simp
qed

text \<open>
  C8, as amended. Over any number of iterations that stay in the main loop the three
  counters do not decrease and the start time is not assigned again. The elapsed time
  is not a counter: each iteration sets it to the clock reading minus the start time,
  so it has not decreased when the last clock reading is not below the reading the
  earlier value came from.
\<close>

theorem counters_never_decrease:
  assumes "steps (RUNNING g) inps = RUNNING g'"
  shows "targets_pressed g \<le> targets_pressed g' \<and> clicks g \<le> clicks g' \<and>
         misses g \<le> misses g' \<and> start_time g' = start_time g \<and>
         (inps \<noteq> [] \<longrightarrow> elapsed_time g' = time_now (last inps) - start_time g) \<and>
         (inps \<noteq> [] \<and> elapsed_time g + start_time g \<le> time_now (last inps) \<longrightarrow>
            elapsed_time g \<le> elapsed_time g')"
  using assms
proof (induction inps arbitrary: g)
  case Nil
  then show ?case by simp
next
  case (Cons inp inps)
  from steps_Cons_RUNNING [OF Cons.prems] obtain g1 where t: "tick g inp = RUNNING g1"
    and rest: "steps (RUNNING g1) inps = RUNNING g'"
    by blast
  from tick_counters [OF t] Cons.IH [OF rest] rest show ?case
    by (cases "inps = []") auto
qed

text \<open>
  The elapsed time can go down from one iteration to the next: \<open>time.time()\<close> is the
  wall clock, which can be set back. Here it reads 5 and then 3.
\<close>

theorem elapsed_time_decreases:
  "tick (main_init 0) \<lparr>events = [], mouse = (0, 0), time_now = 5\<rparr> =
     RUNNING ((main_init 0)\<lparr>elapsed_time := 5\<rparr>)
   \<and> tick ((main_init 0)\<lparr>elapsed_time := 5\<rparr>) \<lparr>events = [], mouse = (0, 0), time_now = 3\<rparr> =
     RUNNING ((main_init 0)\<lparr>elapsed_time := 3\<rparr>)
   \<and> elapsed_time ((main_init 0)\<lparr>elapsed_time := 3\<rparr>)
       < elapsed_time ((main_init 0)\<lparr>elapsed_time := 5\<rparr>)"
  by (simp add: tick_def update_phase_def main_init_def for_targets.simps draw_top_bar_def
      LIVES_def)

theorem counters_never_decrease_witness:
  "steps (RUNNING (idle_state 1 [aged 1 0 100 100] 0 1)) [frame 2 [] (0, 0)] =
     RUNNING (idle_state 2 [aged 2 0 100 100] 0 1)
   \<and> [frame 2 [] (0, 0)] \<noteq> []
   \<and> elapsed_time (idle_state 1 [aged 1 0 100 100] 0 1)
        + start_time (idle_state 1 [aged 1 0 100 100] 0 1)
        \<le> time_now (last [frame 2 [] (0, 0)])
   \<and> targets_pressed (idle_state 1 [aged 1 0 100 100] 0 1)
        \<le> targets_pressed (idle_state 2 [aged 2 0 100 100] 0 1)
   \<and> clicks (idle_state 1 [aged 1 0 100 100] 0 1) \<le> clicks (idle_state 2 [aged 2 0 100 100] 0 1)
   \<and> misses (idle_state 1 [aged 1 0 100 100] 0 1) \<le> misses (idle_state 2 [aged 2 0 100 100] 0 1)
   \<and> start_time (idle_state 2 [aged 2 0 100 100] 0 1)
        = start_time (idle_state 1 [aged 1 0 100 100] 0 1)
   \<and> elapsed_time (idle_state 2 [aged 2 0 100 100] 0 1)
        = time_now (last [frame 2 [] (0, 0)]) - start_time (idle_state 1 [aged 1 0 100 100] 0 1)
   \<and> elapsed_time (idle_state 1 [aged 1 0 100 100] 0 1)
        \<le> elapsed_time (idle_state 2 [aged 2 0 100 100] 0 1)"
proof -
  have s: "steps (RUNNING (idle_state 1 [aged 1 0 100 100] 0 1)) [frame 2 [] (0, 0)] =
     RUNNING (idle_state 2 [aged 2 0 100 100] 0 1)"
    using second_tick by simp
  have le: "elapsed_time (idle_state 1 [aged 1 0 100 100] 0 1)
        + start_time (idle_state 1 [aged 1 0 100 100] 0 1)
        \<le> time_now (last [frame 2 [] (0, 0)])"
    by (simp add: idle_state_def frame_def)
  from counters_never_decrease [OF s] s le show ?thesis by simp
qed

section \<open>A session without clicks, iteration by iteration\<close>

lemma idle_phase_one:
  assumes "m < LIVES" and "a + j < 298"
  shows "steps (RUNNING (idle_state k [aged a i px py] m n)) (idle_frames (Suc k) j) =
         RUNNING (idle_state (k + j) [aged (a + j) i px py] m n)"
proof -
  have "\<forall>t \<in> set [aged a i px py]. \<forall>l < j. 0 < tgt_size ((update ^^ Suc l) t)"
    using assms(2) by (simp add: funpow_aged update_aged aged_size_pos)
  from idle_state_frames [OF assms(1) this] show ?thesis
    by (simp add: funpow_aged add.commute)
qed

lemma idle_phase_two:
  assumes "m < LIVES" and "a + j < 298" and "b + j < 298"
  shows "steps (RUNNING (idle_state k [aged a i px py, aged b i' px' py'] m n))
           (idle_frames (Suc k) j) =
         RUNNING (idle_state (k + j) [aged (a + j) i px py, aged (b + j) i' px' py'] m n)"
proof -
  have "\<forall>t \<in> set [aged a i px py, aged b i' px' py']. \<forall>l < j. 0 < tgt_size ((update ^^ Suc l) t)"
    using assms(2,3) by (simp add: funpow_aged update_aged aged_size_pos)
  from idle_state_frames [OF assms(1) this] show ?thesis
    by (simp add: funpow_aged add.commute)
qed

lemma spawn_one:
  assumes "m < LIVES" and "a < 297"
  shows "tick (idle_state k [aged a i px py] m n) (frame (Suc k) [TARGET_EVENT qx qy] (0, 0)) =
         RUNNING (idle_state (Suc k) [aged (Suc a) i px py, aged 1 n qx qy] m (Suc n))"
  using spawn_tick [of m "[aged a i px py]" k n qx qy] assms
  by (simp add: update_aged aged_size_pos)

lemma expiry_two:
  shows "tick (idle_state k [aged 297 i px py, b] m n) (frame (Suc k) [] (0, 0)) =
     (if m + 1 < LIVES then RUNNING (idle_state (Suc k) [b] (m + 1) n)
      else CRASHED ZeroDivisionError)"
  by (rule expiry_tick) (simp add: update_aged aged_size)

lemma steps_single: "steps s [inp] = step s inp"
  by simp

lemma length_idle_frames: "length (idle_frames a n) = n"
  by (simp add: idle_frames_def)

text \<open>The phases of the session, each from the state the one before ends in.\<close>

lemma phase_1: "steps (RUNNING (main_init 0)) [frame 1 [TARGET_EVENT 100 100] (0, 0)] =
    RUNNING (idle_state 1 [aged 1 0 100 100] 0 1)"
  using first_tick by simp

lemma phase_2: "steps (RUNNING (idle_state 1 [aged 1 0 100 100] 0 1)) (idle_frames 2 179) =
    RUNNING (idle_state 180 [aged 180 0 100 100] 0 1)"
proof -
  have "steps (RUNNING (idle_state 1 [aged 1 0 100 100] 0 1)) (idle_frames (Suc 1) 179) =
      RUNNING (idle_state (1 + 179) [aged (1 + 179) 0 100 100] 0 1)"
    by (rule idle_phase_one) (simp_all add: LIVES_def)
  then show ?thesis by (simp add: numeral_2_eq_2)
qed

lemma phase_3:
  "steps (RUNNING (idle_state 180 [aged 180 0 100 100] 0 1))
     [frame 181 [TARGET_EVENT 300 200] (0, 0)] =
   RUNNING (idle_state 181 [aged 181 0 100 100, aged 1 1 300 200] 0 2)"
proof -
  have "tick (idle_state 180 [aged 180 0 100 100] 0 1)
       (frame (Suc 180) [TARGET_EVENT 300 200] (0, 0)) =
      RUNNING (idle_state (Suc 180) [aged (Suc 180) 0 100 100, aged 1 1 300 200] 0 (Suc 1))"
    by (rule spawn_one) (simp_all add: LIVES_def)
  then show ?thesis by (simp add: numeral_2_eq_2)
qed

lemma phase_4:
  "steps (RUNNING (idle_state 181 [aged 181 0 100 100, aged 1 1 300 200] 0 2))
     (idle_frames 182 116) =
   RUNNING (idle_state 297 [aged 297 0 100 100, aged 117 1 300 200] 0 2)"
proof -
  have "steps (RUNNING (idle_state 181 [aged 181 0 100 100, aged 1 1 300 200] 0 2))
        (idle_frames (Suc 181) 116) =
      RUNNING (idle_state (181 + 116) [aged (181 + 116) 0 100 100, aged (1 + 116) 1 300 200] 0 2)"
    by (rule idle_phase_two) (simp_all add: LIVES_def)
  then show ?thesis by simp
qed

lemma phase_5:
  "steps (RUNNING (idle_state 297 [aged 297 0 100 100, aged 117 1 300 200] 0 2))
     [frame 298 [] (0, 0)] =
   RUNNING (idle_state 298 [aged 117 1 300 200] 1 2)"
  using expiry_two [of 297 0 100 100 "aged 117 1 300 200" 0 2] by (simp add: LIVES_def)

lemma phase_6:
  "steps (RUNNING (idle_state 298 [aged 117 1 300 200] 1 2)) (idle_frames 299 62) =
   RUNNING (idle_state 360 [aged 179 1 300 200] 1 2)"
proof -
  have "steps (RUNNING (idle_state 298 [aged 117 1 300 200] 1 2)) (idle_frames (Suc 298) 62) =
      RUNNING (idle_state (298 + 62) [aged (117 + 62) 1 300 200] 1 2)"
    by (rule idle_phase_one) (simp_all add: LIVES_def)
  then show ?thesis by simp
qed

lemma phase_7:
  "steps (RUNNING (idle_state 360 [aged 179 1 300 200] 1 2))
     [frame 361 [TARGET_EVENT 500 300] (0, 0)] =
   RUNNING (idle_state 361 [aged 180 1 300 200, aged 1 2 500 300] 1 3)"
proof -
  have "tick (idle_state 360 [aged 179 1 300 200] 1 2)
       (frame (Suc 360) [TARGET_EVENT 500 300] (0, 0)) =
      RUNNING (idle_state (Suc 360) [aged (Suc 179) 1 300 200, aged 1 2 500 300] 1 (Suc 2))"
    by (rule spawn_one) (simp_all add: LIVES_def)
  then show ?thesis by simp
qed

lemma phase_8:
  "steps (RUNNING (idle_state 361 [aged 180 1 300 200, aged 1 2 500 300] 1 3))
     (idle_frames 362 117) =
   RUNNING (idle_state 478 [aged 297 1 300 200, aged 118 2 500 300] 1 3)"
proof -
  have "steps (RUNNING (idle_state 361 [aged 180 1 300 200, aged 1 2 500 300] 1 3))
        (idle_frames (Suc 361) 117) =
      RUNNING (idle_state (361 + 117) [aged (180 + 117) 1 300 200, aged (1 + 117) 2 500 300] 1 3)"
    by (rule idle_phase_two) (simp_all add: LIVES_def)
  then show ?thesis by simp
qed

lemma phase_9:
  "steps (RUNNING (idle_state 478 [aged 297 1 300 200, aged 118 2 500 300] 1 3))
     [frame 479 [] (0, 0)] =
   RUNNING (idle_state 479 [aged 118 2 500 300] 2 3)"
  using expiry_two [of 478 1 300 200 "aged 118 2 500 300" 1 3] by (simp add: LIVES_def)

lemma phase_10:
  "steps (RUNNING (idle_state 479 [aged 118 2 500 300] 2 3)) (idle_frames 480 61) =
   RUNNING (idle_state 540 [aged 179 2 500 300] 2 3)"
proof -
  have "steps (RUNNING (idle_state 479 [aged 118 2 500 300] 2 3)) (idle_frames (Suc 479) 61) =
      RUNNING (idle_state (479 + 61) [aged (118 + 61) 2 500 300] 2 3)"
    by (rule idle_phase_one) (simp_all add: LIVES_def)
  then show ?thesis by simp
qed

lemma phase_11:
  "steps (RUNNING (idle_state 540 [aged 179 2 500 300] 2 3))
     [frame 541 [TARGET_EVENT 700 400] (0, 0)] =
   RUNNING (idle_state 541 [aged 180 2 500 300, aged 1 3 700 400] 2 4)"
proof -
  have "tick (idle_state 540 [aged 179 2 500 300] 2 3)
       (frame (Suc 540) [TARGET_EVENT 700 400] (0, 0)) =
      RUNNING (idle_state (Suc 540) [aged (Suc 179) 2 500 300, aged 1 3 700 400] 2 (Suc 3))"
    by (rule spawn_one) (simp_all add: LIVES_def)
  then show ?thesis by simp
qed

lemma phase_12:
  "steps (RUNNING (idle_state 541 [aged 180 2 500 300, aged 1 3 700 400] 2 4))
     (idle_frames 542 117) =
   RUNNING (idle_state 658 [aged 297 2 500 300, aged 118 3 700 400] 2 4)"
proof -
  have "steps (RUNNING (idle_state 541 [aged 180 2 500 300, aged 1 3 700 400] 2 4))
        (idle_frames (Suc 541) 117) =
      RUNNING (idle_state (541 + 117) [aged (180 + 117) 2 500 300, aged (1 + 117) 3 700 400] 2 4)"
    by (rule idle_phase_two) (simp_all add: LIVES_def)
  then show ?thesis by simp
qed

lemma phase_13:
  "tick (idle_state 658 [aged 297 2 500 300, aged 118 3 700 400] 2 4) (frame 659 [] (0, 0)) =
   CRASHED ZeroDivisionError"
  using expiry_two [of 658 2 500 300 "aged 118 3 700 400" 2 4] by (simp add: LIVES_def)

lemma run_181:
  "steps (RUNNING (main_init 0)) session_181 =
     RUNNING (idle_state 181 [aged 181 0 100 100, aged 1 1 300 200] 0 2)"
  by (simp only: session_181_def steps_append phase_1 phase_2 phase_3)

lemma run_297:
  "steps (RUNNING (main_init 0)) session_297 =
     RUNNING (idle_state 297 [aged 297 0 100 100, aged 117 1 300 200] 0 2)"
  by (simp only: session_297_def steps_append run_181 phase_4)

text \<open>
  Iteration 182 with a click on the centre of the first target: the first target is
  hit and removed, and the loop ends without visiting the second.
\<close>

lemma click_tick:
  "tick (idle_state 181 [aged 181 0 100 100, aged 1 1 300 200] 0 2)
     (frame 182 [MOUSEBUTTONDOWN] (100, 100)) =
   RUNNING ((idle_state 182 [aged 1 1 300 200] 0 2)
     \<lparr>targets_pressed := 1, clicks := 1, click := True, mouse_pos := (100, 100)\<rparr>)"
  by (simp add: tick_def update_phase_def idle_state_def frame_def handle_event_def
      for_targets.simps loop_body_def update_aged aged_size aged_oid aged_x aged_y collide_iff
      draw_top_bar_def LIVES_def)

lemma run_658:
  "steps (RUNNING (main_init 0)) session_658 =
     RUNNING (idle_state 658 [aged 297 2 500 300, aged 118 3 700 400] 2 4)"
  by (simp only: session_658_def steps_append run_297 phase_5 phase_6 phase_7 phase_8
      phase_9 phase_10 phase_11 phase_12)

lemma run_659: "steps (RUNNING (main_init 0)) session_659 = CRASHED ZeroDivisionError"
  by (simp only: session_659_def steps_append run_658 steps_single step.simps phase_13)

text \<open>
  The sessions are ones the program can meet: one input for each iteration, none with
  a click, and positions \<open>random.randint\<close> can return.
\<close>

lemma wf_idle_frames: "list_all wf_input (idle_frames a n)"
  by (simp add: idle_frames_def list_all_iff wf_input_def frame_def)

lemma no_click_idle_frames:
  "list_all (\<lambda>inp. MOUSEBUTTONDOWN \<notin> set (events inp)) (idle_frames a n)"
  by (simp add: idle_frames_def list_all_iff frame_def)

lemma session_700_wf: "list_all wf_input session_700"
  by (simp add: session_700_def session_659_def session_658_def session_297_def
      session_181_def wf_idle_frames)
     (simp add: wf_input_def frame_def TARGET_PADDING_def WIDTH_def HEIGHT_def TOP_BAR_HEIGHT_def)

lemma session_659_wf: "list_all wf_input session_659"
  using session_700_wf by (simp add: session_700_def)

lemma session_700_no_click:
  "list_all (\<lambda>inp. MOUSEBUTTONDOWN \<notin> set (events inp)) session_700"
  by (simp add: session_700_def session_659_def session_658_def session_297_def
      session_181_def no_click_idle_frames)
     (simp add: frame_def)

lemma session_lengths:
  "length session_181 = 181" "length session_297 = 297" "length session_658 = 658"
  "length session_659 = 659" "length session_700 = 700"
  by (simp_all add: session_700_def session_659_def session_658_def session_297_def
      session_181_def length_idle_frames)

lemma steps_reachable:
  "reachable g \<Longrightarrow> list_all wf_input inps \<Longrightarrow> steps (RUNNING g) inps = RUNNING g' \<Longrightarrow>
   reachable g'"
proof (induction inps arbitrary: g)
  case Nil
  then show ?case by simp
next
  case (Cons inp inps)
  from steps_Cons_RUNNING [OF Cons.prems(3)] obtain g1 where t: "tick g inp = RUNNING g1"
    and rest: "steps (RUNNING g1) inps = RUNNING g'" by blast
  from Cons.prems(1,2) t have "reachable g1" by (auto intro: reachable.tick)
  with Cons.IH [OF _ _ rest] Cons.prems(2) show ?case by simp
qed

lemma reachable_297:
  "reachable (idle_state 297 [aged 297 0 100 100, aged 117 1 300 200] 0 2)"
proof -
  have "list_all wf_input session_297"
    using session_659_wf by (simp add: session_659_def session_658_def)
  with reachable.init [of 0] show ?thesis using run_297 by (rule steps_reachable)
qed

lemma reachable_658:
  "reachable (idle_state 658 [aged 297 2 500 300, aged 118 3 700 400] 2 4)"
proof -
  have "list_all wf_input session_658"
    using session_659_wf by (simp add: session_659_def)
  with reachable.init [of 0] show ?thesis using run_658 by (rule steps_reachable)
qed

text \<open>
  C7 at two states of a session, both with two targets in the list at the top of the
  iteration. In iteration 182 the player clicks on the centre of the first target: it
  is updated, hit and removed, and the second target, which appeared one iteration
  before, is not visited: it is in the list afterwards as it was, where \<open>update\<close> would
  have changed it. In iteration 298 of the session without clicks the radius of the
  first target reaches 0 and it is removed; again the second is not visited, and keeps
  the radius 117/5 where one update gives 118/5.
\<close>

theorem skipped_target:
  "steps (RUNNING (main_init 0)) session_181 =
     RUNNING (idle_state 181 [aged 181 0 100 100, aged 1 1 300 200] 0 2)
   \<and> tick (idle_state 181 [aged 181 0 100 100, aged 1 1 300 200] 0 2)
        (frame 182 [MOUSEBUTTONDOWN] (100, 100)) =
     RUNNING ((idle_state 182 [aged 1 1 300 200] 0 2)
       \<lparr>targets_pressed := 1, clicks := 1, click := True, mouse_pos := (100, 100)\<rparr>)
   \<and> tgt_size (aged 1 1 300 200) = 1 / 5
   \<and> tgt_size (update (aged 1 1 300 200)) = 2 / 5
   \<and> steps (RUNNING (main_init 0)) session_297 =
     RUNNING (idle_state 297 [aged 297 0 100 100, aged 117 1 300 200] 0 2)
   \<and> tick (idle_state 297 [aged 297 0 100 100, aged 117 1 300 200] 0 2) (frame 298 [] (0, 0)) =
     RUNNING (idle_state 298 [aged 117 1 300 200] 1 2)
   \<and> tgt_size (aged 117 1 300 200) = 117 / 5
   \<and> tgt_size (update (aged 117 1 300 200)) = 118 / 5"
  using run_181 click_tick run_297 phase_5 by (simp add: update_aged aged_size)

lemma run_700: "steps (RUNNING (main_init 0)) session_700 = CRASHED ZeroDivisionError"
  by (simp only: session_700_def steps_append run_659 steps_CRASHED)

text \<open>
  The speed divides by the elapsed time, which is 0 when the clock reads in the first
  iteration what it read for \<open>start_time\<close>.
\<close>

lemma clock_tie:
  "tick (main_init c) \<lparr>events = [], mouse = mp, time_now = c\<rparr> = CRASHED ZeroDivisionError"
  by (simp add: tick_def update_phase_def main_init_def for_targets.simps draw_top_bar_def
      LIVES_def)

text \<open>
  C4 on the session without clicks: the iteration in which the third target runs out,
  number 659, calls \<open>end_screen\<close>, whose accuracy divides by \<open>clicks = 0\<close>. The 700
  iterations before the fifth target do not complete.
\<close>

theorem idle_session_crashes:
  "steps (RUNNING (main_init 0)) session_659 = CRASHED ZeroDivisionError
   \<and> steps (RUNNING (main_init 0)) session_700 = CRASHED ZeroDivisionError"
  using run_659 run_700 by simp

text \<open>
  C5 at the end of the session without clicks: the locals with which \<open>end_screen\<close> is
  called have \<open>clicks \<ge> targets_pressed\<close> (both are 0), and no accuracy is computed.
\<close>

theorem accuracy_raises:
  "update_phase (idle_state 658 [aged 297 2 500 300, aged 118 3 700 400] 2 4)
     (frame 659 [] (0, 0)) = Inr (idle_state 659 [aged 118 3 700 400] 3 4)
   \<and> LIVES \<le> misses (idle_state 659 [aged 118 3 700 400] 3 4)
   \<and> targets_pressed (idle_state 659 [aged 118 3 700 400] 3 4)
       \<le> clicks (idle_state 659 [aged 118 3 700 400] 3 4)
   \<and> end_screen (elapsed_time (idle_state 659 [aged 118 3 700 400] 3 4))
       (targets_pressed (idle_state 659 [aged 118 3 700 400] 3 4))
       (clicks (idle_state 659 [aged 118 3 700 400] 3 4)) = Inl ZeroDivisionError"
  by (simp add: update_phase_def idle_state_def frame_def for_targets.simps loop_body_def
      update_aged aged_size end_screen_def LIVES_def)

section \<open>The accuracy\<close>

text \<open>Rounding to one decimal stays between two bounds that are multiples of a tenth.\<close>

lemma round_half_even_bounds:
  assumes "of_int a \<le> r" and "r \<le> of_int b"
  shows "a \<le> round_half_even r \<and> round_half_even r \<le> b"
proof -
  let ?f = "\<lfloor>r\<rfloor>"
  have lo: "a \<le> ?f" using assms(1) by (simp add: le_floor_iff)
  have hi: "?f \<le> b" using assms(2) by (simp add: floor_le_iff)
  have "?f = b \<Longrightarrow> r - of_int ?f = 0"
  proof -
    assume "?f = b"
    then have "of_int b \<le> r" by (metis of_int_floor_le)
    with assms(2) \<open>?f = b\<close> show ?thesis by simp
  qed
  with lo hi show ?thesis
    by (cases "?f = b") (auto simp: round_half_even_def Let_def)
qed

lemma round_1_bounds:
  assumes "0 \<le> v" and "v \<le> 100"
  shows "0 \<le> round_1 v \<and> round_1 v \<le> 100"
proof -
  have "0 \<le> round_half_even (v * 10) \<and> round_half_even (v * 10) \<le> 1000"
    using assms by (intro round_half_even_bounds) simp_all
  then have "(0::real) \<le> of_int (round_half_even (v * 10))"
    and "of_int (round_half_even (v * 10)) \<le> (1000::real)"
    by simp_all
  then show ?thesis by (simp add: round_1_def)
qed

text \<open>
  With at least one click, and no more hits than clicks, the end screen shows an
  accuracy between 0 and 100.
\<close>

lemma accuracy_in_range:
  assumes "0 \<le> pressed" and "pressed \<le> clks" and "0 < clks" and "elapsed \<noteq> 0"
  shows "\<exists>s. end_screen elapsed pressed clks = Inr s \<and>
     sum_accuracy s = round_1 (of_int pressed / of_int clks * 100) \<and>
     0 \<le> sum_accuracy s \<and> sum_accuracy s \<le> 100"
proof -
  have "0 \<le> real_of_int pressed / of_int clks * 100"
    using assms(1,3) by simp
  moreover have "real_of_int pressed \<le> of_int clks" and "0 < real_of_int clks"
    using assms(2,3) by simp_all
  then have "real_of_int pressed / of_int clks * 100 \<le> 100"
    by (simp add: pos_divide_le_eq)
  ultimately have "0 \<le> round_1 (of_int pressed / of_int clks * 100) \<and>
      round_1 (of_int pressed / of_int clks * 100) \<le> 100"
    by (rule round_1_bounds)
  then show ?thesis using assms(3,4) by (simp add: end_screen_def)
qed

lemma handle_event_run: "run (handle_event e g) = run g"
  by (cases e) (simp_all add: handle_event_def)

lemma handle_events_run: "run (handle_events es g) \<longleftrightarrow> run g \<and> QUIT \<notin> set es"
  by (induction es arbitrary: g) (auto simp: handle_event_run)

lemma for_targets_run:
  assumes "for_targets i g = Inr r"
  shows "run r = run g"
proof -
  have "\<And>i h h'. run h = run g \<Longrightarrow> i < length (targets h) \<Longrightarrow> loop_body i h = Inr h' \<Longrightarrow>
      run h' = run g"
    using loop_body_frame by fastforce
  from for_targets_preserves [where I = "\<lambda>h. run h = run g", OF this assms] show ?thesis
    by simp
qed

lemma update_phase_run:
  "update_phase g inp = Inr g2 \<Longrightarrow> run g2 \<longleftrightarrow> run g \<and> QUIT \<notin> set (events inp)"
  unfolding update_phase_def by (drule for_targets_run) (simp add: handle_events_run)

section \<open>The two loops as a state machine\<close>

text \<open>At the top of an iteration there are lives left and \<open>run\<close> holds.\<close>

lemma reachable_running: "reachable g \<Longrightarrow> misses g < LIVES \<and> run g"
proof (induction rule: reachable.induct)
  case (init st)
  show ?case by (simp add: main_init_def LIVES_def)
next
  case (tick g inp g')
  from tick_RUNNING_D(2,3) [OF tick.hyps(3)] show ?case by simp
qed

text \<open>
  The outcomes of an iteration of the main loop, decided by the locals \<open>g2\<close> its two
  inner loops leave: with \<open>misses < LIVES\<close> it goes back to the top of the loop when
  \<open>run\<close> still holds, and the program exits when a \<open>QUIT\<close> event has cleared \<open>run\<close>;
  with \<open>misses \<ge> LIVES\<close>, and only then, \<open>end_screen\<close> is called. The only other
  outcome is an exception, and the second half of an iteration raises none when the
  elapsed time is not 0 and, on the way to the end screen, there has been a click. From
  the end screen the program stays there or exits: it never returns to the main loop.
\<close>

lemma tick_outcomes:
  "(tick g inp = RUNNING g' \<longrightarrow>
      update_phase g inp = Inr g' \<and> misses g' < LIVES \<and> run g')
   \<and> (tick g inp = EXITED \<longrightarrow>
      (\<exists>g2. update_phase g inp = Inr g2 \<and> misses g2 < LIVES \<and> \<not> run g2))
   \<and> (tick g inp = ENDED s \<longrightarrow>
      (\<exists>g2. update_phase g inp = Inr g2 \<and> LIVES \<le> misses g2 \<and>
            end_screen (elapsed_time g2) (targets_pressed g2) (clicks g2) = Inr s))
   \<and> (update_phase g inp = Inr g2 \<and> LIVES \<le> misses g2 \<longrightarrow>
      (\<exists>s'. tick g inp = ENDED s') \<or> tick g inp = CRASHED ZeroDivisionError)
   \<and> (update_phase g inp = Inr g2 \<and> misses g2 < LIVES \<longrightarrow>
      tick g inp = (if run g2 then RUNNING g2 else EXITED) \<or>
      tick g inp = CRASHED ZeroDivisionError)
   \<and> (update_phase g inp = Inr g2 \<and> LIVES \<le> misses g2 \<and>
        elapsed_time g2 \<noteq> 0 \<and> clicks g2 \<noteq> 0 \<longrightarrow> (\<exists>s'. tick g inp = ENDED s'))
   \<and> (update_phase g inp = Inr g2 \<and> misses g2 < LIVES \<and> elapsed_time g2 \<noteq> 0 \<longrightarrow>
        tick g inp = (if run g2 then RUNNING g2 else EXITED))
   \<and> (update_phase g inp = Inr g2 \<and> run g \<longrightarrow> (run g2 \<longleftrightarrow> QUIT \<notin> set (events inp)))
   \<and> (reachable g \<longrightarrow> misses g < LIVES \<and> run g)
   \<and> (steps (ENDED s) inps = ENDED s \<or> steps (ENDED s) inps = EXITED)"
proof -
  have a: "tick g inp = RUNNING g' \<longrightarrow>
      update_phase g inp = Inr g' \<and> misses g' < LIVES \<and> run g'"
    using tick_RUNNING_D by blast
  have b: "tick g inp = EXITED \<longrightarrow>
      (\<exists>g2. update_phase g inp = Inr g2 \<and> misses g2 < LIVES \<and> \<not> run g2)"
    by (auto simp: tick_def split: sum.splits if_splits)
  have c: "tick g inp = ENDED s \<longrightarrow>
      (\<exists>g2. update_phase g inp = Inr g2 \<and> LIVES \<le> misses g2 \<and>
            end_screen (elapsed_time g2) (targets_pressed g2) (clicks g2) = Inr s)"
    by (auto simp: tick_def split: sum.splits if_splits)
  have d: "update_phase g inp = Inr g2 \<and> LIVES \<le> misses g2 \<longrightarrow>
      (\<exists>s'. tick g inp = ENDED s') \<or> tick g inp = CRASHED ZeroDivisionError"
    by (auto simp: tick_def end_screen_def split: sum.splits if_splits)
  have e: "update_phase g inp = Inr g2 \<and> misses g2 < LIVES \<longrightarrow>
      tick g inp = (if run g2 then RUNNING g2 else EXITED) \<or>
      tick g inp = CRASHED ZeroDivisionError"
    by (auto simp: tick_def draw_top_bar_def split: sum.splits if_splits)
  have d': "update_phase g inp = Inr g2 \<and> LIVES \<le> misses g2 \<and>
        elapsed_time g2 \<noteq> 0 \<and> clicks g2 \<noteq> 0 \<longrightarrow> (\<exists>s'. tick g inp = ENDED s')"
    by (auto simp: tick_def end_screen_def split: sum.splits if_splits)
  have e': "update_phase g inp = Inr g2 \<and> misses g2 < LIVES \<and> elapsed_time g2 \<noteq> 0 \<longrightarrow>
        tick g inp = (if run g2 then RUNNING g2 else EXITED)"
    by (auto simp: tick_def draw_top_bar_def split: sum.splits if_splits)
  have f: "update_phase g inp = Inr g2 \<and> run g \<longrightarrow> (run g2 \<longleftrightarrow> QUIT \<notin> set (events inp))"
    using update_phase_run by blast
  from a b c d e d' e' f reachable_running [of g] steps_ENDED [of s inps]
  show ?thesis by blast
qed

text \<open>A \<open>QUIT\<close> event in the first iteration: the loop is left and the program exits.\<close>

lemma quit_tick: "tick (main_init 0) (frame 1 [QUIT] (0, 0)) = EXITED"
  by (simp add: tick_def update_phase_def main_init_def frame_def for_targets.simps
      draw_top_bar_def LIVES_def)

text \<open>A program that is in the main loop after some inputs was in it after each of them.\<close>

lemma steps_prefix_RUNNING:
  assumes "steps s (xs @ ys) = RUNNING g"
  shows "\<exists>g'. steps s xs = RUNNING g'"
proof (rule ccontr)
  assume "\<nexists>g'. steps s xs = RUNNING g'"
  then have "\<And>g'. steps s xs \<noteq> RUNNING g'" by blast
  then have "steps (steps s xs) ys \<noteq> RUNNING g" by (rule steps_not_RUNNING)
  with assms show False by (simp add: steps_append)
qed

text \<open>
  C2 on the session without clicks. The player loses all three lives within the 700
  iterations, and the program is never in the end screen: after no number of
  iterations of the session is it in \<open>ENDED\<close>, and at the end of the session it is
  neither in the main loop nor exited. The iteration in which the last life goes calls
  \<open>end_screen\<close>, which raises before the summary is shown and before the wait for a
  key begins.
\<close>

theorem never_ended:
  "steps (RUNNING (main_init 0)) (take n session_700) \<noteq> ENDED s
   \<and> steps (RUNNING (main_init 0)) session_700 \<noteq> RUNNING g
   \<and> steps (RUNNING (main_init 0)) session_700 \<noteq> EXITED"
proof -
  have "steps (RUNNING (main_init 0)) (take n session_700) \<noteq> ENDED s"
  proof (cases "n \<le> 658")
    case True
    then have "take n session_700 = take n session_658"
      by (simp add: session_700_def session_659_def session_lengths)
    moreover have "steps (RUNNING (main_init 0)) (take n session_658 @ drop n session_658) =
        RUNNING (idle_state 658 [aged 297 2 500 300, aged 118 3 700 400] 2 4)"
      using run_658 by simp
    then have "\<exists>g'. steps (RUNNING (main_init 0)) (take n session_658) = RUNNING g'"
      by (rule steps_prefix_RUNNING)
    ultimately show ?thesis by auto
  next
    case False
    then have "take n session_700 = session_659 @ take (n - 659) (idle_frames 660 41)"
      by (simp add: session_700_def session_lengths)
    then show ?thesis by (simp add: steps_append run_659 steps_CRASHED)
  qed
  then show ?thesis by (simp add: run_700)
qed

end
